theory Spec2Isabelle
  imports Main "HOL-Library.AList"
begin

section \<open>The document: objects the element builder works on\<close>

text \<open>
  \<^verbatim>\<open>src/ellipsi.ts\<close> builds DOM elements. The DOM is the platform, not part of the
  repository, so its objects live in an explicit store: a list of objects, a reference
  being an index into it. Objects are only ever added at the end, as a JS heap only
  ever allocates.

  The store holds the four kinds of object the source distinguishes with
  \<^verbatim>\<open>instanceof\<close>: \<^verbatim>\<open>HTMLElement\<close>, \<^verbatim>\<open>Text\<close>, \<^verbatim>\<open>Attr\<close> and the
  \<^verbatim>\<open>ShadowRoot\<close> that \<^verbatim>\<open>attachShadow\<close> returns. Style sheets and callbacks are
  opaque to the source (it stores and forwards them), so they are plain identifiers.

  What the platform model covers: allocation, attributes by name, the child list with
  the move that \<^verbatim>\<open>appendChild\<close> performs on a node that already has a parent, the
  owner of an \<^verbatim>\<open>Attr\<close>, which elements can host a shadow root and that an element
  hosts one at most, which style sheets a shadow root adopts, and the conversion of a
  value to a string that \<^verbatim>\<open>createTextNode\<close> performs.

  What it leaves out. The platform checks a tag or attribute name
  (InvalidCharacterError) and, in an HTML document, folds it to lower case; the
  operations here take every name and compare names as strings. That is what the
  platform does on a name that it accepts and stores as it is written (\<open>storedName\<close>
  below), and a property that depends on it (that a call succeeds whatever the keys
  are, which attribute a key of a bag reaches) is stated for such names. The platform
  keeps the value of an \<^verbatim>\<open>Attr\<close> that an element owns in step with the attribute of
  the element; the store does not: the source reads an \<^verbatim>\<open>Attr\<close> only when it is
  passed as a child, and the one that \<^verbatim>\<open>tag\<close> gives to the element is a clone that
  no call returns. The cycle check of \<^verbatim>\<open>appendChild\<close> cannot fire in \<^verbatim>\<open>tag\<close>:
  the parent is the element or the shadow root that the call has just created, and a
  node that existed before the call cannot contain it.

  A platform operation that can throw returns \<open>error + 'a\<close>, \<open>Inl\<close> being the
  exception. \<open>DanglingReference\<close> is not an exception of the platform: it is what the
  model answers to a reference that points to no object, which no value of the program
  is. When \<^verbatim>\<open>tag\<close> throws, the document it leaves behind is not described.
\<close>

type_synonym ref = nat
type_synonym sheet = nat
type_synonym callback = nat

datatype error =
    TypeError
  | NotSupportedError
  | NotAllowedError
  | InUseAttributeError
  | HierarchyRequestError
  | DanglingReference

record EventListenerOptions =
  capture :: "bool option"

text \<open>\<^verbatim>\<open>class EventListener { type; callback; options }\<close> (lines 122-141).\<close>

datatype EventListener =
  EventListener (type: string) (callback: callback) (options: "EventListenerOptions option")

text \<open>\<^verbatim>\<open>class Shadow { children; sheets }\<close> (lines 164-176).\<close>

datatype Shadow =
  Shadow (children: "ref list") (sheets: "sheet list")

record element =
  localName :: string
  attributes :: "(string \<times> string) list"
  childNodes :: "ref list"
  shadowRoot :: "ref option"
  eventListeners :: "(string \<times> callback \<times> bool) list"

datatype ShadowRootMode = Open | Closed

datatype obj =
    ElementO element
  | TextO string
  | AttrO string string "ref option"
  | ShadowRootO ShadowRootMode "sheet list" "ref list"

type_synonym dom = "obj list"

definition lookup :: "dom \<Rightarrow> ref \<Rightarrow> obj option" where
  "lookup h r = (if r < length h then Some (h ! r) else None)"

definition alloc :: "obj \<Rightarrow> dom \<Rightarrow> ref \<times> dom" where
  "alloc x h = (length h, h @ [x])"

definition updElement :: "ref \<Rightarrow> (element \<Rightarrow> element) \<Rightarrow> dom \<Rightarrow> dom" where
  "updElement el f h =
     (case lookup h el of Some (ElementO e) \<Rightarrow> h[el := ElementO (f e)] | _ \<Rightarrow> h)"

subsection \<open>Platform operations the source calls\<close>

text \<open>\<^verbatim>\<open>document.createElement(name)\<close>: a new element with no attribute, no child, no
  shadow root and no listener.\<close>

definition createElement :: "string \<Rightarrow> dom \<Rightarrow> ref \<times> dom" where
  "createElement nm h =
     alloc (ElementO \<lparr>localName = nm, attributes = [], childNodes = [],
                      shadowRoot = None, eventListeners = []\<rparr>) h"

definition createTextNode :: "string \<Rightarrow> dom \<Rightarrow> ref \<times> dom" where
  "createTextNode s h = alloc (TextO s) h"

text \<open>\<^verbatim>\<open>document.createAttribute(key)\<close>: a new \<^verbatim>\<open>Attr\<close> with the empty value and no
  owner element.\<close>

definition createAttribute :: "string \<Rightarrow> dom \<Rightarrow> ref \<times> dom" where
  "createAttribute k h = alloc (AttrO k [] None) h"

definition setValue :: "ref \<Rightarrow> string \<Rightarrow> dom \<Rightarrow> dom" where
  "setValue a v h =
     (case lookup h a of Some (AttrO n _ ow) \<Rightarrow> h[a := AttrO n v ow] | _ \<Rightarrow> h)"

definition getAttribute :: "ref \<Rightarrow> string \<Rightarrow> dom \<Rightarrow> string option" where
  "getAttribute el k h =
     (case lookup h el of Some (ElementO e) \<Rightarrow> map_of (attributes e) k | _ \<Rightarrow> None)"

definition hasAttribute :: "ref \<Rightarrow> string \<Rightarrow> dom \<Rightarrow> bool" where
  "hasAttribute el k h = (getAttribute el k h \<noteq> None)"

definition setAttribute :: "ref \<Rightarrow> string \<Rightarrow> string \<Rightarrow> dom \<Rightarrow> dom" where
  "setAttribute el k v h =
     updElement el (\<lambda>e. e\<lparr>attributes := AList.update k v (attributes e)\<rparr>) h"

text \<open>\<^verbatim>\<open>node.cloneNode()\<close>: for an \<^verbatim>\<open>Attr\<close>, the only node the source clones, a
  copy that no element owns.\<close>

definition cloneNode :: "ref \<Rightarrow> dom \<Rightarrow> error + ref \<times> dom" where
  "cloneNode a h =
     (case lookup h a of
        Some (AttrO n v ow) \<Rightarrow> Inr (alloc (AttrO n v None) h)
      | Some (TextO s) \<Rightarrow> Inr (alloc (TextO s) h)
      | Some (ElementO e) \<Rightarrow>
          Inr (alloc (ElementO \<lparr>localName = localName e, attributes = attributes e,
                 childNodes = [], shadowRoot = None, eventListeners = []\<rparr>) h)
      | Some (ShadowRootO m ss cs) \<Rightarrow> Inl NotSupportedError
      | None \<Rightarrow> Inl DanglingReference)"

text \<open>\<^verbatim>\<open>element.setAttributeNode(attr)\<close>: the platform refuses an \<^verbatim>\<open>Attr\<close> that
  another element owns (InUseAttributeError); otherwise the element owns it from now
  on and carries its name and value.\<close>

definition setAttributeNode :: "ref \<Rightarrow> ref \<Rightarrow> dom \<Rightarrow> error + dom" where
  "setAttributeNode el a h =
     (case lookup h a of
        Some (AttrO n v ow) \<Rightarrow>
          (if ow \<noteq> None \<and> ow \<noteq> Some el then Inl InUseAttributeError
           else Inr (setAttribute el n v (h[a := AttrO n v (Some el)])))
      | Some _ \<Rightarrow> Inl TypeError
      | None \<Rightarrow> Inl DanglingReference)"

text \<open>\<^verbatim>\<open>parent.appendChild(child)\<close>: the child leaves the child list it is in, if
  any, and becomes the last child of the parent. Elements and text nodes can be
  children, elements and shadow roots can be parents; the model has no other kind of
  node, and refuses an \<^verbatim>\<open>Attr\<close> or a shadow root as the child
  (HierarchyRequestError).\<close>

fun removeChild :: "ref \<Rightarrow> obj \<Rightarrow> obj" where
  "removeChild c (ElementO e) = ElementO (e\<lparr>childNodes := removeAll c (childNodes e)\<rparr>)"
| "removeChild c (ShadowRootO m ss cs) = ShadowRootO m ss (removeAll c cs)"
| "removeChild c x = x"

fun addChild :: "ref \<Rightarrow> obj \<Rightarrow> error + obj" where
  "addChild c (ElementO e) = Inr (ElementO (e\<lparr>childNodes := childNodes e @ [c]\<rparr>))"
| "addChild c (ShadowRootO m ss cs) = Inr (ShadowRootO m ss (cs @ [c]))"
| "addChild c x = Inl HierarchyRequestError"

fun isContent :: "obj \<Rightarrow> bool" where
  "isContent (ElementO e) = True"
| "isContent (TextO s) = True"
| "isContent x = False"

definition appendChild :: "ref \<Rightarrow> ref \<Rightarrow> dom \<Rightarrow> error + dom" where
  "appendChild parent c h =
     (case lookup h c of
        None \<Rightarrow> Inl DanglingReference
      | Some x \<Rightarrow>
          if \<not> isContent x then Inl HierarchyRequestError
          else (case lookup (map (removeChild c) h) parent of
                  None \<Rightarrow> Inl DanglingReference
                | Some p \<Rightarrow>
                    (case addChild c p of
                       Inl e \<Rightarrow> Inl e
                     | Inr p' \<Rightarrow> Inr ((map (removeChild c) h)[parent := p']))))"

text \<open>\<^verbatim>\<open>element.addEventListener(type, callback, options)\<close>: the platform keeps one
  listener for each type, callback and capture flag.\<close>

definition captureOf :: "EventListenerOptions option \<Rightarrow> bool" where
  "captureOf opts = (case opts of None \<Rightarrow> False
     | Some r \<Rightarrow> (case capture r of None \<Rightarrow> False | Some b \<Rightarrow> b))"

definition addEventListener ::
  "ref \<Rightarrow> string \<Rightarrow> callback \<Rightarrow> EventListenerOptions option \<Rightarrow> dom \<Rightarrow> dom" where
  "addEventListener el t cb opts h =
     updElement el (\<lambda>e. if (t, cb, captureOf opts) \<in> set (eventListeners e) then e
        else e\<lparr>eventListeners := eventListeners e @ [(t, cb, captureOf opts)]\<rparr>) h"

text \<open>\<^verbatim>\<open>element.attachShadow({ mode: 'open' })\<close>. The DOM standard lets an element
  host a shadow root when its name is a valid shadow host name (a valid custom element
  name or one of a fixed list) and it is not a shadow host already; otherwise the call
  throws NotSupportedError. A custom element name is taken in its ASCII form: a
  lower-case letter, then lower-case letters, digits, \<^verbatim>\<open>-\<close>, \<^verbatim>\<open>.\<close> and \<^verbatim>\<open>_\<close>
  with at least one \<^verbatim>\<open>-\<close>, and not a reserved name. Custom element definitions
  (which can forbid a shadow root) are not part of the model.\<close>

definition shadowHostNames :: "string list" where
  "shadowHostNames =
     [''article'', ''aside'', ''blockquote'', ''body'', ''div'', ''footer'',
      ''h1'', ''h2'', ''h3'', ''h4'', ''h5'', ''h6'', ''header'', ''main'', ''nav'',
      ''p'', ''section'', ''span'']"

definition reservedNames :: "string list" where
  "reservedNames =
     [''annotation-xml'', ''color-profile'', ''font-face'', ''font-face-src'',
      ''font-face-uri'', ''font-face-format'', ''font-face-name'', ''missing-glyph'']"

definition lowerAlpha :: "char \<Rightarrow> bool" where
  "lowerAlpha c = (c \<in> set ''abcdefghijklmnopqrstuvwxyz'')"

definition nameChar :: "char \<Rightarrow> bool" where
  "nameChar c = (lowerAlpha c \<or> c \<in> set ''0123456789-._'')"

definition validCustomElementName :: "string \<Rightarrow> bool" where
  "validCustomElementName n =
     (case n of
        [] \<Rightarrow> False
      | c # cs \<Rightarrow> lowerAlpha c \<and> list_all nameChar cs \<and> CHR ''-'' \<in> set cs
                 \<and> n \<notin> set reservedNames)"

definition validShadowHostName :: "string \<Rightarrow> bool" where
  "validShadowHostName n = (validCustomElementName n \<or> n \<in> set shadowHostNames)"

definition attachShadow :: "ref \<Rightarrow> ShadowRootMode \<Rightarrow> dom \<Rightarrow> error + ref \<times> dom" where
  "attachShadow el m h =
     (case lookup h el of
        Some (ElementO e) \<Rightarrow>
          if \<not> validShadowHostName (localName e) then Inl NotSupportedError
          else
            (case shadowRoot e of
               Some r \<Rightarrow> Inl NotSupportedError
             | None \<Rightarrow>
                 Inr (length h,
                      updElement el (\<lambda>e. e\<lparr>shadowRoot := Some (length h)\<rparr>)
                        (h @ [ShadowRootO m [] []])))
      | Some _ \<Rightarrow> Inl TypeError
      | None \<Rightarrow> Inl DanglingReference)"

text \<open>\<^verbatim>\<open>shadowRoot.adoptedStyleSheets = sheets\<close>: the platform adopts only style
  sheets made with the \<^verbatim>\<open>CSSStyleSheet\<close> constructor and throws NotAllowedError for
  any other; the list then replaces the one before. A style sheet is a number: \<open>0\<close>
  stands for a sheet that was not constructed (one that a \<^verbatim>\<open>style\<close> or \<^verbatim>\<open>link\<close>
  element owns), every other number for a constructed one.\<close>

definition constructed :: "sheet \<Rightarrow> bool" where
  "constructed k = (k \<noteq> 0)"

definition setAdoptedStyleSheets :: "ref \<Rightarrow> sheet list \<Rightarrow> dom \<Rightarrow> error + dom" where
  "setAdoptedStyleSheets r ss h =
     (if \<not> list_all constructed ss then Inl NotAllowedError
      else (case lookup h r of
              Some (ShadowRootO m _ cs) \<Rightarrow> Inr (h[r := ShadowRootO m ss cs])
            | Some _ \<Rightarrow> Inl TypeError
            | None \<Rightarrow> Inl DanglingReference))"

section \<open>Values a caller can pass\<close>

text \<open>
  The source classifies each child by its runtime shape. A child that is an object of
  the document is \<open>Ref\<close>, classified by what the store holds at that reference, as
  \<^verbatim>\<open>instanceof\<close> does. \<open>Other\<close> is every value that reaches the last branch: the
  source only ever converts such a value to a string, so it is given by what decides
  that conversion: a string, a boolean, a symbol, which has no conversion to a string
  (the platform's \<^verbatim>\<open>createTextNode\<close> throws TypeError), and as \<open>Obj s\<close> any other
  value (a number, a function, an object of a class the source does not test for),
  \<open>s\<close> being the string it converts to. Arrays are finite and hold no cycle.
\<close>

datatype other = Str string | Bool bool | Sym string | Obj string

fun toString :: "other \<Rightarrow> error + string" where
  "toString (Str s) = Inr s"
| "toString (Bool b) = Inr (if b then ''true'' else ''false'')"
| "toString (Sym d) = Inl TypeError"
| "toString (Obj s) = Inr s"

datatype attr_value = One string | Many "string list"

datatype child =
    Ref ref
  | Listener EventListener
  | ShadowC Shadow
  | Arr "child list"
  | Bag "(string \<times> attr_value) list"
  | Null
  | Undefined
  | Other other

section \<open>The source, function by function\<close>

text \<open>\<^verbatim>\<open>Array.prototype.join(sep)\<close> on strings.\<close>

fun join :: "string \<Rightarrow> string list \<Rightarrow> string" where
  "join sep [] = []"
| "join sep [x] = x"
| "join sep (x # y # ys) = x @ sep @ join sep (y # ys)"

text \<open>A value that may be \<^verbatim>\<open>null\<close>, used in a string concatenation.\<close>

fun str :: "string option \<Rightarrow> string" where
  "str None = ''null''"
| "str (Some s) = s"

text \<open>\<^verbatim>\<open>handleAttributeNode\<close> (lines 73-80).\<close>

definition handleAttributeNode :: "ref \<Rightarrow> ref \<Rightarrow> dom \<Rightarrow> error + dom" where
  "handleAttributeNode htmlTag attrNode h =
     (case lookup h attrNode of
        Some (AttrO n v ow) \<Rightarrow>
          if hasAttribute htmlTag n h then
            (let currentValue = getAttribute htmlTag n h
             in Inr (setAttribute htmlTag n (str currentValue @ '' '' @ v) h))
          else
            (case cloneNode attrNode h of
               Inl e \<Rightarrow> Inl e
             | Inr (c, h1) \<Rightarrow> setAttributeNode htmlTag c h1)
      | Some _ \<Rightarrow> Inl TypeError
      | None \<Rightarrow> Inl DanglingReference)"

text \<open>\<^verbatim>\<open>handleAttributeObject\<close> (lines 87-104); the list is the bag in the order of
  \<^verbatim>\<open>Object.keys\<close>.\<close>

fun newValue :: "attr_value \<Rightarrow> string" where
  "newValue (Many xs) = join '' '' xs"
| "newValue (One s) = s"

fun handleAttributeObject :: "ref \<Rightarrow> (string \<times> attr_value) list \<Rightarrow> dom \<Rightarrow> dom" where
  "handleAttributeObject htmlTag [] h = h"
| "handleAttributeObject htmlTag ((key, x) # keys) h =
     handleAttributeObject htmlTag keys
       (if hasAttribute htmlTag key h then
          (let currentValue = getAttribute htmlTag key h
           in setAttribute htmlTag key (str currentValue @ '' '' @ newValue x) h)
        else setAttribute htmlTag key (newValue x) h)"

text \<open>\<^verbatim>\<open>attr\<close> (lines 112-116).\<close>

definition attr :: "string \<Rightarrow> string \<Rightarrow> dom \<Rightarrow> ref \<times> dom" where
  "attr key v h = (let (node, h1) = createAttribute key h in (node, setValue node v h1))"

text \<open>\<^verbatim>\<open>String.prototype.split(sep)\<close> for a separator of one character.\<close>

fun split :: "char \<Rightarrow> string \<Rightarrow> string list" where
  "split sep [] = [[]]"
| "split sep (c # cs) =
     (if c = sep then [] # split sep cs
      else (case split sep cs of [] \<Rightarrow> [[c]] | w # ws \<Rightarrow> (c # w) # ws))"

text \<open>\<^verbatim>\<open>on\<close> (lines 150-158).\<close>

definition on ::
  "string \<Rightarrow> callback \<Rightarrow> EventListenerOptions option \<Rightarrow> EventListener list" where
  "on types cb opts = map (\<lambda>t. EventListener t cb opts) (split CHR '' '' types)"

text \<open>The loop of the \<^verbatim>\<open>Shadow\<close> branch (lines 50-53).\<close>

fun appendChildren :: "ref \<Rightarrow> ref list \<Rightarrow> dom \<Rightarrow> error + dom" where
  "appendChildren root [] h = Inr h"
| "appendChildren root (childChild # rest) h =
     (case appendChild root childChild h of
        Inl e \<Rightarrow> Inl e
      | Inr h1 \<Rightarrow> appendChildren root rest h1)"

text \<open>\<^verbatim>\<open>htmlTag.appendChild(document.createTextNode(s))\<close>.\<close>

definition appendText :: "ref \<Rightarrow> string \<Rightarrow> dom \<Rightarrow> error + dom" where
  "appendText htmlTag s h = (let (t, h1) = createTextNode s h in appendChild htmlTag t h1)"

text \<open>\<^verbatim>\<open>process\<close> (lines 34-62): the loop over the children and, as \<open>processChild\<close>,
  its body. An exception leaves the loop and the call; it is the result \<open>Inl\<close>.\<close>

fun process :: "ref \<Rightarrow> child list \<Rightarrow> dom \<Rightarrow> error + dom"
  and processChild :: "ref \<Rightarrow> child \<Rightarrow> dom \<Rightarrow> error + dom" where
  "process htmlTag [] h = Inr h"
| "process htmlTag (c # cs) h =
     (case processChild htmlTag c h of
        Inl e \<Rightarrow> Inl e
      | Inr h1 \<Rightarrow> process htmlTag cs h1)"
| "processChild htmlTag (Ref r) h =
     (case lookup h r of
        Some (ElementO e) \<Rightarrow> appendChild htmlTag r h
      | Some (TextO s) \<Rightarrow> appendChild htmlTag r h
      | Some (AttrO n v ow) \<Rightarrow> handleAttributeNode htmlTag r h
      | Some (ShadowRootO m ss cs) \<Rightarrow> appendText htmlTag ''[object ShadowRoot]'' h
      | None \<Rightarrow> Inl DanglingReference)"
| "processChild htmlTag (Listener l) h =
     Inr (addEventListener htmlTag (type l) (callback l) (options l) h)"
| "processChild htmlTag (ShadowC s) h =
     (case attachShadow htmlTag Open h of
        Inl e \<Rightarrow> Inl e
      | Inr (root, h1) \<Rightarrow>
          (case setAdoptedStyleSheets root (sheets s) h1 of
             Inl e \<Rightarrow> Inl e
           | Inr h2 \<Rightarrow> appendChildren root (children s) h2))"
| "processChild htmlTag (Arr cs) h = process htmlTag cs h"
| "processChild htmlTag (Bag b) h = Inr (handleAttributeObject htmlTag b h)"
| "processChild htmlTag Null h = Inr h"
| "processChild htmlTag Undefined h = Inr h"
| "processChild htmlTag (Other v) h =
     (case toString v of Inl e \<Rightarrow> Inl e | Inr s \<Rightarrow> appendText htmlTag s h)"

text \<open>\<^verbatim>\<open>tag\<close> (lines 31-66).\<close>

definition tag :: "string \<Rightarrow> child list \<Rightarrow> dom \<Rightarrow> error + ref \<times> dom" where
  "tag nm cs h =
     (let (htmlTag, h1) = createElement nm h
      in case process htmlTag cs h1 of
           Inl e \<Rightarrow> Inl e
         | Inr h2 \<Rightarrow> Inr (htmlTag, h2))"

text \<open>\<^verbatim>\<open>shadow\<close> (lines 191-212). Its children are classified on their own terms: a
  style sheet, an element or text node, an array, \<^verbatim>\<open>null\<close> or \<^verbatim>\<open>undefined\<close>, and
  everything else, which becomes a text node. The two local arrays
  \<^verbatim>\<open>components\<close> and \<^verbatim>\<open>sheets\<close> are threaded with the document.\<close>

datatype shadowChild =
    SheetS sheet
  | RefS ref
  | ArrS "shadowChild list"
  | NullS
  | UndefinedS
  | OtherS other

type_synonym shadowState = "ref list \<times> sheet list \<times> dom"

definition pushText :: "string \<Rightarrow> shadowState \<Rightarrow> shadowState" where
  "pushText s st =
     (case st of (components, ss, h) \<Rightarrow>
        (let (t, h1) = createTextNode s h in (components @ [t], ss, h1)))"

fun processShadow :: "shadowChild list \<Rightarrow> shadowState \<Rightarrow> error + shadowState"
  and processShadowChild :: "shadowChild \<Rightarrow> shadowState \<Rightarrow> error + shadowState" where
  "processShadow [] st = Inr st"
| "processShadow (c # cs) st =
     (case processShadowChild c st of
        Inl e \<Rightarrow> Inl e
      | Inr st1 \<Rightarrow> processShadow cs st1)"
| "processShadowChild (SheetS k) st =
     (case st of (components, ss, h) \<Rightarrow> Inr (components, ss @ [k], h))"
| "processShadowChild (RefS r) st =
     (case st of (components, ss, h) \<Rightarrow>
        (case lookup h r of
           Some (ElementO e) \<Rightarrow> Inr (components @ [r], ss, h)
         | Some (TextO s) \<Rightarrow> Inr (components @ [r], ss, h)
         | Some (AttrO n v ow) \<Rightarrow> Inr (pushText ''[object Attr]'' st)
         | Some (ShadowRootO m a b) \<Rightarrow> Inr (pushText ''[object ShadowRoot]'' st)
         | None \<Rightarrow> Inl DanglingReference))"
| "processShadowChild (ArrS cs) st = processShadow cs st"
| "processShadowChild NullS st = Inr st"
| "processShadowChild UndefinedS st = Inr st"
| "processShadowChild (OtherS v) st =
     (case toString v of Inl e \<Rightarrow> Inl e | Inr s \<Rightarrow> Inr (pushText s st))"

definition shadow :: "shadowChild list \<Rightarrow> dom \<Rightarrow> error + Shadow \<times> dom" where
  "shadow cs h =
     (case processShadow cs ([], [], h) of
        Inl e \<Rightarrow> Inl e
      | Inr (components, ss, h1) \<Rightarrow> Inr (Shadow components ss, h1))"

text \<open>\<^verbatim>\<open>shortTag\<close> (lines 221-224) and the shortcuts \<^verbatim>\<open>h5\<close> and \<^verbatim>\<open>h6\<close>
  (lines 230-231).\<close>

definition shortTag :: "string \<Rightarrow> child list \<Rightarrow> child list \<Rightarrow> dom \<Rightarrow> error + ref \<times> dom" where
  "shortTag nm x = (\<lambda>y. tag nm (x @ y))"

definition h5 :: "child list \<Rightarrow> dom \<Rightarrow> error + ref \<times> dom" where
  "h5 = shortTag ''h6'' []"

definition h6 :: "child list \<Rightarrow> dom \<Rightarrow> error + ref \<times> dom" where
  "h6 = shortTag ''h6'' []"

section \<open>Notions used to state the properties\<close>

text \<open>Reading a field of an element through its reference.\<close>

definition localNameOf :: "ref \<Rightarrow> dom \<Rightarrow> string option" where
  "localNameOf el h = (case lookup h el of Some (ElementO e) \<Rightarrow> Some (localName e) | _ \<Rightarrow> None)"

definition childNodesOf :: "ref \<Rightarrow> dom \<Rightarrow> ref list option" where
  "childNodesOf el h = (case lookup h el of Some (ElementO e) \<Rightarrow> Some (childNodes e) | _ \<Rightarrow> None)"

definition shadowRootOf :: "ref \<Rightarrow> dom \<Rightarrow> ref option" where
  "shadowRootOf el h = (case lookup h el of Some (ElementO e) \<Rightarrow> shadowRoot e | _ \<Rightarrow> None)"

text \<open>The specification's flattening: the contents of a nested array take the place of
  the array, at every depth.\<close>

fun flatten :: "child list \<Rightarrow> child list" and flattenChild :: "child \<Rightarrow> child list" where
  "flatten [] = []"
| "flatten (c # cs) = flattenChild c @ flatten cs"
| "flattenChild (Arr cs) = flatten cs"
| "flattenChild c = [c]"

text \<open>The specification's attribute merge rule: the supplied value when there is no
  value yet, else the existing value, one space, the new value.\<close>

fun specMerge :: "string option \<Rightarrow> string \<Rightarrow> string" where
  "specMerge None v = v"
| "specMerge (Some cur) v = cur @ '' '' @ v"

text \<open>How many \<^verbatim>\<open>Shadow\<close> values a list of children holds, at any depth.\<close>

fun shadows :: "child list \<Rightarrow> nat" and shadowsChild :: "child \<Rightarrow> nat" where
  "shadows [] = 0"
| "shadows (c # cs) = shadowsChild c + shadows cs"
| "shadowsChild (ShadowC s) = 1"
| "shadowsChild (Arr cs) = shadows cs"
| "shadowsChild c = 0"

text \<open>A list of children without its \<^verbatim>\<open>null\<close> and \<^verbatim>\<open>undefined\<close> entries, at
  every depth.\<close>

fun strip :: "child list \<Rightarrow> child list" and stripChild :: "child \<Rightarrow> child list" where
  "strip [] = []"
| "strip (c # cs) = stripChild c @ strip cs"
| "stripChild Null = []"
| "stripChild Undefined = []"
| "stripChild (Arr cs) = [Arr (strip cs)]"
| "stripChild c = [c]"

text \<open>The children that the builder has a rule for, in a document \<open>h\<close>: every
  reference is to an object of \<open>h\<close>, every \<^verbatim>\<open>Shadow\<close> holds elements and text
  nodes of \<open>h\<close> and constructed style sheets, and no value is a symbol. This
  contains the values of the declared type \<^verbatim>\<open>TagChild\<close> that the platform takes,
  \<^verbatim>\<open>null\<close> and \<^verbatim>\<open>undefined\<close>, and the values outside the type that convert
  to a string.\<close>

fun isSym :: "other \<Rightarrow> bool" where
  "isSym (Sym d) = True"
| "isSym v = False"

definition isNode :: "dom \<Rightarrow> ref \<Rightarrow> bool" where
  "isNode h r = (case lookup h r of Some x \<Rightarrow> isContent x | None \<Rightarrow> False)"

fun accepted :: "dom \<Rightarrow> child list \<Rightarrow> bool" and acceptedChild :: "dom \<Rightarrow> child \<Rightarrow> bool" where
  "accepted h [] = True"
| "accepted h (c # cs) = (acceptedChild h c \<and> accepted h cs)"
| "acceptedChild h (Ref r) = (r < length h)"
| "acceptedChild h (ShadowC s) =
     (list_all (isNode h) (children s) \<and> list_all constructed (sheets s))"
| "acceptedChild h (Arr cs) = accepted h cs"
| "acceptedChild h (Other v) = (\<not> isSym v)"
| "acceptedChild h c = True"

text \<open>A name that the platform accepts and stores as it is written, as a tag name and
  as an attribute name: an ASCII lower-case letter, then ASCII lower-case letters,
  digits, \<^verbatim>\<open>-\<close>, \<^verbatim>\<open>.\<close> and \<^verbatim>\<open>_\<close>. (The platform accepts more; on these the
  check passes and the folding changes nothing.) \<open>named\<close>: the names that the children
  bring, the keys of the attribute bags and the names of the \<^verbatim>\<open>Attr\<close> nodes, are
  such names.\<close>

definition storedName :: "string \<Rightarrow> bool" where
  "storedName n = (case n of [] \<Rightarrow> False | c # cs \<Rightarrow> lowerAlpha c \<and> list_all nameChar cs)"

fun named :: "dom \<Rightarrow> child list \<Rightarrow> bool" and namedChild :: "dom \<Rightarrow> child \<Rightarrow> bool" where
  "named h [] = True"
| "named h (c # cs) = (namedChild h c \<and> named h cs)"
| "namedChild h (Ref r) =
     (case lookup h r of Some (AttrO n v ow) \<Rightarrow> storedName n | _ \<Rightarrow> True)"
| "namedChild h (Bag b) = list_all storedName (map fst b)"
| "namedChild h (Arr cs) = named h cs"
| "namedChild h c = True"

text \<open>The shortcuts of the source (lines 226-268) whose element cannot host a
  shadow root: the forty-three names without the thirteen that are valid shadow host
  names (\<^verbatim>\<open>h1\<close> to \<^verbatim>\<open>h6\<close>, \<^verbatim>\<open>div\<close>, \<^verbatim>\<open>p\<close>, \<^verbatim>\<open>section\<close>,
  \<^verbatim>\<open>span\<close>, \<^verbatim>\<open>main\<close>, \<^verbatim>\<open>footer\<close>, \<^verbatim>\<open>header\<close>).\<close>

definition unhostedShortcuts :: "string list" where
  "unhostedShortcuts =
     [''a'', ''b'', ''br'', ''button'', ''code'', ''dd'', ''dl'', ''dt'', ''em'', ''form'',
      ''hr'', ''i'', ''img'', ''li'', ''ol'', ''pre'', ''q'', ''s'', ''strong'', ''sub'',
      ''sup'', ''table'', ''td'', ''textarea'', ''th'', ''tr'', ''u'', ''ul'', ''details'',
      ''slot'']"

text \<open>What a step of the builder leaves as it is in an object that exists already:
  \<open>same\<close> for every step but \<^verbatim>\<open>attachShadow\<close> (the kind of the object, the name and
  the shadow root of an element, all of a text node and of an \<^verbatim>\<open>Attr\<close>),
  \<open>grown\<close> when an element may also have gained a shadow root.\<close>

fun same :: "obj \<Rightarrow> obj \<Rightarrow> bool" where
  "same (ElementO e) (ElementO e') =
     (localName e' = localName e \<and> shadowRoot e' = shadowRoot e)"
| "same (TextO s) x = (x = TextO s)"
| "same (AttrO n v ow) x = (x = AttrO n v ow)"
| "same (ShadowRootO m ss cs) (ShadowRootO m' ss' cs') = (m' = m)"
| "same x y = False"

fun grown :: "obj \<Rightarrow> obj \<Rightarrow> bool" where
  "grown (ElementO e) (ElementO e') =
     (localName e' = localName e \<and> (shadowRoot e = None \<or> shadowRoot e' = shadowRoot e))"
| "grown x y = same x y"

definition keeps :: "dom \<Rightarrow> dom \<Rightarrow> bool" where
  "keeps h h' = (length h \<le> length h' \<and> list_all2 same h (take (length h) h'))"

definition extends :: "dom \<Rightarrow> dom \<Rightarrow> bool" where
  "extends h h' = (length h \<le> length h' \<and> list_all2 grown h (take (length h) h'))"

section \<open>What a step leaves unchanged\<close>

lemma keeps_nth: "keeps h h' \<longleftrightarrow> length h \<le> length h' \<and> (\<forall>r<length h. same (h ! r) (h' ! r))"
  by (auto simp: keeps_def list_all2_conv_all_nth)

lemma extends_nth: "extends h h' \<longleftrightarrow> length h \<le> length h' \<and> (\<forall>r<length h. grown (h ! r) (h' ! r))"
  by (auto simp: extends_def list_all2_conv_all_nth)

lemma same_refl: "same x x"
  by (cases x) simp_all

lemma same_trans: "same x y \<Longrightarrow> same y z \<Longrightarrow> same x z"
  by (cases x; cases y; cases z) simp_all

lemma same_grown: "same x y \<Longrightarrow> grown x y"
  by (cases x; cases y) simp_all

lemma grown_trans: "grown x y \<Longrightarrow> grown y z \<Longrightarrow> grown x z"
  by (cases x; cases y; cases z) auto

lemma keeps_refl: "keeps h h"
  by (simp add: keeps_nth same_refl)

lemma keeps_trans: "keeps h h1 \<Longrightarrow> keeps h1 h2 \<Longrightarrow> keeps h h2"
  unfolding keeps_nth by (meson same_trans le_trans less_le_trans)

lemma keeps_extends: "keeps h h' \<Longrightarrow> extends h h'"
  by (simp add: keeps_nth extends_nth same_grown)

lemma extends_refl: "extends h h"
  by (simp add: keeps_extends keeps_refl)

lemma extends_trans: "extends h h1 \<Longrightarrow> extends h1 h2 \<Longrightarrow> extends h h2"
  unfolding extends_nth by (meson grown_trans le_trans less_le_trans)

lemma keeps_alloc: "keeps h (h @ [x])"
  by (simp add: keeps_nth nth_append same_refl)

lemma keeps_updElement:
  "(\<And>e. localName (f e) = localName e \<and> shadowRoot (f e) = shadowRoot e) \<Longrightarrow> keeps h (updElement el f h)"
  by (auto simp: keeps_nth updElement_def lookup_def nth_list_update same_refl
           split: option.splits obj.splits if_splits)

lemma keeps_setAttribute: "keeps h (setAttribute el k v h)"
  by (simp add: setAttribute_def keeps_updElement)

lemma keeps_addEventListener: "keeps h (addEventListener el t cb opts h)"
  by (simp add: addEventListener_def keeps_updElement)

lemma same_removeChild: "same x (removeChild c x)"
  by (cases x) simp_all

lemma same_addChild: "addChild c (removeChild c x) = Inr y \<Longrightarrow> same x y"
  by (cases x) auto

lemma keeps_appendChild: "appendChild p c h = Inr h' \<Longrightarrow> keeps h h'"
  by (auto simp: appendChild_def keeps_nth lookup_def nth_list_update same_removeChild same_addChild
           split: option.splits if_splits sum.splits)

lemma keeps_appendChildren: "appendChildren root cs h = Inr h' \<Longrightarrow> keeps h h'"
proof (induction cs arbitrary: h)
  case Nil
  then show ?case by (simp add: keeps_refl)
next
  case (Cons c cs)
  then show ?case
    by (auto split: sum.splits intro: keeps_trans keeps_appendChild)
qed

lemma keeps_appendText: "appendText el s h = Inr h' \<Longrightarrow> keeps h h'"
  by (auto simp: appendText_def createTextNode_def alloc_def
           intro: keeps_trans [OF keeps_alloc keeps_appendChild])

lemma keeps_setAdoptedStyleSheets: "setAdoptedStyleSheets r ss h = Inr h' \<Longrightarrow> keeps h h'"
  by (auto simp: keeps_nth setAdoptedStyleSheets_def lookup_def nth_list_update same_refl
           split: option.splits obj.splits if_splits)

lemma keeps_handleAttributeObject: "keeps h (handleAttributeObject el b h)"
proof (induction el b h rule: handleAttributeObject.induct)
  case (1 htmlTag h)
  then show ?case by (simp add: keeps_refl)
next
  case (2 htmlTag key x keys h)
  then show ?case
    by (auto simp: Let_def intro: keeps_trans [OF keeps_setAttribute])
qed

lemma keeps_handleAttributeNode: "handleAttributeNode el a h = Inr h' \<Longrightarrow> keeps h h'"
proof -
  assume a: "handleAttributeNode el a h = Inr h'"
  show ?thesis
  proof (cases "lookup h a")
    case None
    with a show ?thesis by (simp add: handleAttributeNode_def)
  next
    case (Some x)
    show ?thesis
    proof (cases x)
      case (AttrO n v ow)
      show ?thesis
      proof (cases "hasAttribute el n h")
        case True
        with a Some AttrO show ?thesis
          by (auto simp: handleAttributeNode_def Let_def keeps_setAttribute)
      next
        case False
        have l: "lookup (h @ [AttrO n v None]) (length h) = Some (AttrO n v None)"
          by (simp add: lookup_def)
        from a Some AttrO False
        have h': "h' = setAttribute el n v ((h @ [AttrO n v None])[length h := AttrO n v (Some el)])"
          by (auto simp: handleAttributeNode_def cloneNode_def alloc_def setAttributeNode_def l
                   split: if_splits)
        have "keeps h (h @ [AttrO n v (Some el)])" by (rule keeps_alloc)
        then show ?thesis
          unfolding h' by (auto intro: keeps_trans keeps_setAttribute)
      qed
    qed (use a Some in \<open>simp_all add: handleAttributeNode_def\<close>)
  qed
qed

lemma extends_attachShadow: "attachShadow el m h = Inr (r, h') \<Longrightarrow> extends h h'"
  by (auto simp: attachShadow_def extends_nth updElement_def lookup_def nth_append nth_list_update
                 same_refl same_grown
           split: option.splits obj.splits if_splits)

lemma extends_process:
  "process el cs h = Inr h' \<Longrightarrow> extends h h'"
  "processChild el c h = Inr h' \<Longrightarrow> extends h h'"
proof (induction el cs h and el c h arbitrary: h' and h' rule: process_processChild.induct)
  case (1 htmlTag h)
  then show ?case by (simp add: extends_refl)
next
  case (2 htmlTag c cs h)
  then show ?case by (auto split: sum.splits intro: extends_trans)
next
  case (3 htmlTag r h)
  then show ?case
    by (auto split: option.splits obj.splits
             intro: keeps_extends keeps_appendChild keeps_handleAttributeNode keeps_appendText)
next
  case (4 htmlTag l h)
  then show ?case by (auto intro: keeps_extends keeps_addEventListener)
next
  case (5 htmlTag s h)
  from 5 obtain root h1 h2 where a: "attachShadow htmlTag Open h = Inr (root, h1)"
    and a2: "setAdoptedStyleSheets root (sheets s) h1 = Inr h2"
    and b: "appendChildren root (children s) h2 = Inr h'"
    by (auto split: sum.splits)
  have "keeps h1 h'"
    using keeps_trans [OF keeps_setAdoptedStyleSheets [OF a2] keeps_appendChildren [OF b]] .
  with extends_attachShadow [OF a] show ?case
    by (blast intro: extends_trans keeps_extends)
next
  case (7 htmlTag b h)
  then show ?case by (auto intro: keeps_extends keeps_handleAttributeObject)
next
  case (10 htmlTag v h)
  then show ?case by (auto split: sum.splits intro: keeps_extends keeps_appendText)
qed (auto simp: extends_refl)

section \<open>Flattening, and the order of the children\<close>

lemma process_append:
  "process el (xs @ ys) h =
     (case process el xs h of Inl e \<Rightarrow> Inl e | Inr h1 \<Rightarrow> process el ys h1)"
  by (induction xs arbitrary: h) (auto split: sum.splits)

lemma process_flatten:
  "process el (flatten cs) h = process el cs h"
  "process el (flattenChild c) h = processChild el c h"
proof (induction el cs h and el c h rule: process_processChild.induct)
  case (2 htmlTag c cs h)
  then show ?case by (simp add: process_append split: sum.splits)
qed (simp_all split: sum.splits)

lemma tag_flatten: "tag nm (flatten cs) h = tag nm cs h"
  by (simp add: tag_def process_flatten)

text \<open>
  C3. Nested arrays are transparent: \<^verbatim>\<open>tag(name, [[x, [y]], z])\<close> returns what
  \<^verbatim>\<open>tag(name, x, y, z)\<close> returns (the same element in the same document, the same
  error otherwise), whatever \<open>x\<close>, \<open>y\<close> and \<open>z\<close> are, and so does the list
  \<^verbatim>\<open>[[x, [y]], z]\<close> passed as the children; in general a list of children can be
  replaced by its flattening, the contents of each array inlined at its position,
  depth first and left to right.
\<close>

theorem flattening_transparent:
  "tag nm [Arr [Arr [x, Arr [y]], z]] h = tag nm [x, y, z] h
   \<and> tag nm [Arr [x, Arr [y]], z] h = tag nm [x, y, z] h
   \<and> tag nm cs h = tag nm (flatten cs) h
   \<and> tag nm (xs @ [Arr cs] @ ys) h = tag nm (xs @ cs @ ys) h"
proof -
  have a: "process el (xs @ [Arr cs] @ ys) k = process el (xs @ cs @ ys) k" for el k
    by (simp add: process_append split: sum.splits)
  have b: "process el [Arr [Arr [x, Arr [y]], z]] k = process el [x, y, z] k" for el k
    by (simp split: sum.splits)
  have c: "process el [Arr [x, Arr [y]], z] k = process el [x, y, z] k" for el k
    by (simp split: sum.splits)
  show ?thesis
    unfolding tag_def by (simp only: a b c process_flatten)
qed

text \<open>
  C9. The closure that \<^verbatim>\<open>shortTag(name, ...x)\<close> returns, applied to \<open>y\<close>, returns
  what \<^verbatim>\<open>tag(name, ...x, ...y)\<close> returns; the preset children are processed first,
  in order, on the new element, and the children of the call after them, in the
  document the preset children left.
\<close>

theorem shortTag_is_tag:
  "shortTag nm x y h = tag nm (x @ y) h
   \<and> shortTag nm x y h =
       (case tag nm x h of
          Inl e \<Rightarrow> Inl e
        | Inr (el, h1) \<Rightarrow>
            (case process el y h1 of Inl e \<Rightarrow> Inl e | Inr h2 \<Rightarrow> Inr (el, h2)))"
  by (simp add: shortTag_def tag_def createElement_def alloc_def process_append
           split: sum.splits)

section \<open>The element that \<^verbatim>\<open>tag\<close> creates\<close>

lemma lookup_append_old [simp]: "r < length h \<Longrightarrow> lookup (h @ xs) r = Some (h ! r)"
  by (simp add: lookup_def nth_append)

lemma lookup_append_new [simp]: "lookup (h @ [x]) (length h) = Some x"
  by (simp add: lookup_def)

lemma extends_lookup:
  "extends h h' \<Longrightarrow> lookup h r = Some x \<Longrightarrow> \<exists>y. lookup h' r = Some y \<and> grown x y"
  by (auto simp: extends_nth lookup_def split: if_splits)

lemma extends_localName:
  assumes "extends h h'" "lookup h el = Some (ElementO e)" "lookup h' el = Some (ElementO e')"
  shows "localName e' = localName e"
  using extends_lookup [OF assms(1,2)] assms(3) by auto

lemma validShadowHostName_simps [simp]:
  "validShadowHostName ''div''" "validShadowHostName ''section''"
  by (simp_all add: validShadowHostName_def shadowHostNames_def)

lemma tag_localName:
  assumes "tag nm cs h = Inr (el, h')"
  shows "el = length h \<and> localNameOf el h' = Some nm"
proof -
  let ?e = "\<lparr>localName = nm, attributes = [], childNodes = [], shadowRoot = None, eventListeners = []\<rparr>"
  from assms have el: "el = length h" and p: "process (length h) cs (h @ [ElementO ?e]) = Inr h'"
    by (auto simp: tag_def createElement_def alloc_def split: sum.splits)
  from extends_lookup [OF extends_process(1) [OF p], of "length h" "ElementO ?e"]
  obtain y where "lookup h' (length h) = Some y" "grown (ElementO ?e) y" by auto
  then show ?thesis
    using el by (cases y) (auto simp: localNameOf_def)
qed

section \<open>Attributes\<close>

lemma lookup_updElement:
  "lookup (updElement el f h) r =
     (case lookup h r of
        Some (ElementO e) \<Rightarrow> Some (ElementO (if r = el then f e else e))
      | x \<Rightarrow> x)"
  by (auto simp: updElement_def lookup_def nth_list_update split: option.splits obj.splits)

lemma getAttribute_setAttribute:
  "getAttribute r k (setAttribute el k' v h) =
     (if r = el \<and> k = k' \<and> (\<exists>e. lookup h el = Some (ElementO e)) then Some v
      else getAttribute r k h)"
  by (auto simp: getAttribute_def setAttribute_def lookup_updElement update_conv'
           split: option.splits obj.splits)

lemma isElement_setAttribute:
  "lookup h el = Some (ElementO e) \<Longrightarrow> \<exists>e'. lookup (setAttribute el k v h) el = Some (ElementO e')"
  by (simp add: setAttribute_def lookup_updElement)

lemma isElement_handleAttributeObject:
  "lookup h el = Some (ElementO e) \<Longrightarrow> \<exists>e'. lookup (handleAttributeObject el b h) el = Some (ElementO e')"
proof (induction el b h arbitrary: e rule: handleAttributeObject.induct)
  case (2 htmlTag key x keys h)
  then show ?case
    using isElement_setAttribute [OF "2.prems"] by (auto simp: Let_def) metis+
qed simp

lemma bag_other_key:
  "k \<notin> fst ` set b \<Longrightarrow> getAttribute r k (handleAttributeObject el b h) = getAttribute r k h"
  by (induction el b h rule: handleAttributeObject.induct)
     (auto simp: getAttribute_setAttribute Let_def)

lemma bag_first_entry:
  assumes "lookup h el = Some (ElementO e)"
  shows "getAttribute el k
           (if hasAttribute el k h then
              setAttribute el k (str (getAttribute el k h) @ '' '' @ newValue x) h
            else setAttribute el k (newValue x) h)
         = Some (specMerge (getAttribute el k h) (newValue x))"
  using assms by (cases "getAttribute el k h") (auto simp: getAttribute_setAttribute hasAttribute_def)

lemma bag_entry:
  "lookup h el = Some (ElementO e) \<Longrightarrow> distinct (map fst b) \<Longrightarrow> (k, x) \<in> set b \<Longrightarrow>
   getAttribute el k (handleAttributeObject el b h) = Some (specMerge (getAttribute el k h) (newValue x))"
proof (induction el b h arbitrary: e rule: handleAttributeObject.induct)
  case (1 htmlTag h)
  then show ?case by simp
next
  case (2 htmlTag key y keys h)
  let ?h1 = "if hasAttribute htmlTag key h then
              (let currentValue = getAttribute htmlTag key h
               in setAttribute htmlTag key (str currentValue @ '' '' @ newValue y) h)
            else setAttribute htmlTag key (newValue y) h"
  have el1: "\<exists>e'. lookup ?h1 htmlTag = Some (ElementO e')"
    using isElement_setAttribute [OF "2.prems"(1)] by (auto simp: Let_def)
  have first: "getAttribute htmlTag key ?h1 = Some (specMerge (getAttribute htmlTag key h) (newValue y))"
    using bag_first_entry [OF "2.prems"(1), of key y] by (simp only: Let_def)
  have unfold: "handleAttributeObject htmlTag ((key, y) # keys) h = handleAttributeObject htmlTag keys ?h1"
    by (simp only: handleAttributeObject.simps)
  show ?case
  proof (cases "(k, x) = (key, y)")
    case True
    with "2.prems" have "k \<notin> fst ` set keys" by auto
    then have "getAttribute htmlTag k (handleAttributeObject htmlTag keys ?h1) = getAttribute htmlTag k ?h1"
      by (rule bag_other_key)
    with True first unfold show ?thesis by (simp only: prod.inject)
  next
    case False
    with "2.prems" have in_rest: "(k, x) \<in> set keys" and ne: "k \<noteq> key"
      by force+
    from el1 obtain e' where e': "lookup ?h1 htmlTag = Some (ElementO e')" by blast
    have "getAttribute htmlTag k (handleAttributeObject htmlTag keys ?h1)
            = Some (specMerge (getAttribute htmlTag k ?h1) (newValue x))"
      using "2.IH" [OF e' _ in_rest] "2.prems"(2) by simp
    moreover have "getAttribute htmlTag k ?h1 = getAttribute htmlTag k h"
      using ne by (simp add: getAttribute_setAttribute Let_def)
    ultimately show ?thesis using unfold by (simp only:)
  qed
qed

lemma node_entry:
  assumes el: "lookup h el = Some (ElementO e)" and a: "lookup h a = Some (AttrO n v ow)"
  shows "\<exists>h'. handleAttributeNode el a h = Inr h'
           \<and> getAttribute el n h' = Some (specMerge (getAttribute el n h) v)"
proof (cases "getAttribute el n h")
  case None
  have lt: "el < length h" "a < length h" using el a by (auto simp: lookup_def split: if_splits)
  have "handleAttributeNode el a h =
          Inr (setAttribute el n v ((h @ [AttrO n v None])[length h := AttrO n v (Some el)]))"
    using None a by (simp add: handleAttributeNode_def hasAttribute_def cloneNode_def alloc_def
        setAttributeNode_def)
  moreover have "lookup ((h @ [AttrO n v None])[length h := AttrO n v (Some el)]) el = Some (ElementO e)"
    using el lt by (auto simp: lookup_def nth_append nth_list_update split: if_splits)
  ultimately show ?thesis
    using None by (simp add: getAttribute_setAttribute)
next
  case (Some cur)
  then show ?thesis
    using el a by (simp add: handleAttributeNode_def hasAttribute_def getAttribute_setAttribute)
qed

lemma tag_unfold:
  "tag nm cs h =
     (case process (length h) cs (h @ [ElementO \<lparr>localName = nm, attributes = [], childNodes = [],
                      shadowRoot = None, eventListeners = []\<rparr>]) of
        Inl e \<Rightarrow> Inl e | Inr h2 \<Rightarrow> Inr (length h, h2))"
  by (simp add: tag_def createElement_def alloc_def)

lemma bag_twice:
  "\<exists>el h'. tag nm [Bag [(''class'', One ''a'')], Bag [(''class'', One ''a'')]] h = Inr (el, h')
            \<and> getAttribute el ''class'' h' = Some ''a a''"
proof -
  let ?e = "\<lparr>localName = nm, attributes = [], childNodes = [], shadowRoot = None, eventListeners = []\<rparr>"
  let ?h0 = "h @ [ElementO ?e]"
  let ?b = "[(''class'', One ''a'')]"
  let ?h1 = "handleAttributeObject (length h) ?b ?h0"
  let ?h2 = "handleAttributeObject (length h) ?b ?h1"
  have el0: "lookup ?h0 (length h) = Some (ElementO ?e)" by simp
  have g0: "getAttribute (length h) ''class'' ?h0 = None"
    by (simp add: getAttribute_def)
  have g1: "getAttribute (length h) ''class'' ?h1 = Some ''a''"
    using bag_entry [OF el0, of ?b "''class''" "One ''a''"] g0 by simp
  obtain e1 where el1: "lookup ?h1 (length h) = Some (ElementO e1)"
    using isElement_handleAttributeObject [OF el0] by blast
  have g2: "getAttribute (length h) ''class'' ?h2 = Some ''a a''"
    using bag_entry [OF el1, of ?b "''class''" "One ''a''"] g1 by simp
  have "tag nm [Bag ?b, Bag ?b] h = Inr (length h, ?h2)"
    by (simp add: tag_unfold)
  with g2 show ?thesis by blast
qed

text \<open>
  C1. An attribute contribution merges by name. On an element \<open>el\<close>, an
  \<^verbatim>\<open>Attr\<close> named \<open>n\<close> with value \<open>v\<close> leaves the attribute \<open>n\<close> at \<open>v\<close> when
  the element had no such attribute and at the old value, a space and \<open>v\<close> when it
  had one; every entry of an attribute bag does the same for its key, with the entry's
  string or its strings joined by spaces as the value, the keys being names that the
  platform stores as they are written (two keys that differ only in case are one
  attribute to the platform, and the second merges into the first). Two bags
  \<^verbatim>\<open>{class:"a"}\<close> in a row give a new element the class \<^verbatim>\<open>a a\<close>.
\<close>

theorem attribute_merge:
  "(lookup h el = Some (ElementO e) \<and> lookup h a = Some (AttrO n v ow) \<longrightarrow>
      (\<exists>h'. handleAttributeNode el a h = Inr h'
          \<and> getAttribute el n h' = Some (specMerge (getAttribute el n h) v)))
   \<and> (lookup h el = Some (ElementO e) \<and> list_all storedName (map fst b)
        \<and> distinct (map fst b) \<and> (k, x) \<in> set b \<longrightarrow>
        getAttribute el k (handleAttributeObject el b h)
          = Some (specMerge (getAttribute el k h) (newValue x)))
   \<and> (\<exists>el' h'. tag nm [Bag [(''class'', One ''a'')], Bag [(''class'', One ''a'')]] h = Inr (el', h')
          \<and> getAttribute el' ''class'' h' = Some ''a a'')"
  using node_entry [of h el e a n v ow] bag_entry [of h el e b k x] bag_twice [of nm h]
  by blast

theorem attribute_merge_witness:
  "(\<exists>h'. handleAttributeNode 0 1
            [ElementO \<lparr>localName = ''div'', attributes = [(''class'', ''x'')], childNodes = [],
               shadowRoot = None, eventListeners = []\<rparr>, AttrO ''class'' ''y'' None] = Inr h'
          \<and> getAttribute 0 ''class'' h' = Some ''x y'')
   \<and> getAttribute 0 ''class''
        (handleAttributeObject 0 [(''id'', One ''i''), (''class'', Many [''p'', ''q''])]
           [ElementO \<lparr>localName = ''div'', attributes = [(''class'', ''x'')], childNodes = [],
               shadowRoot = None, eventListeners = []\<rparr>, AttrO ''class'' ''y'' None])
        = Some ''x p q''
   \<and> getAttribute 0 ''id''
        (handleAttributeObject 0 [(''id'', One ''i''), (''class'', Many [''p'', ''q''])]
           [ElementO \<lparr>localName = ''div'', attributes = [(''class'', ''x'')], childNodes = [],
               shadowRoot = None, eventListeners = []\<rparr>, AttrO ''class'' ''y'' None])
        = Some ''i''"
  using attribute_merge [of
      "[ElementO \<lparr>localName = ''div'', attributes = [(''class'', ''x'')], childNodes = [],
               shadowRoot = None, eventListeners = []\<rparr>, AttrO ''class'' ''y'' None]"
      0 "\<lparr>localName = ''div'', attributes = [(''class'', ''x'')], childNodes = [],
               shadowRoot = None, eventListeners = []\<rparr>"
      1 "''class''" "''y''" None
      "[(''id'', One ''i''), (''class'', Many [''p'', ''q''])]" "''class''" "Many [''p'', ''q'']" "''div''"]
    attribute_merge [of
      "[ElementO \<lparr>localName = ''div'', attributes = [(''class'', ''x'')], childNodes = [],
               shadowRoot = None, eventListeners = []\<rparr>, AttrO ''class'' ''y'' None]"
      0 "\<lparr>localName = ''div'', attributes = [(''class'', ''x'')], childNodes = [],
               shadowRoot = None, eventListeners = []\<rparr>"
      1 "''class''" "''y''" None
      "[(''id'', One ''i''), (''class'', Many [''p'', ''q''])]" "''id''" "One ''i''" "''div''"]
  by (simp add: lookup_def getAttribute_def storedName_def lowerAlpha_def nameChar_def)

section \<open>An attribute node is a template\<close>

text \<open>What the clone is for: the platform gives an \<^verbatim>\<open>Attr\<close> to the element it is
  set on and refuses it on a second element.\<close>

lemma setAttributeNode_owns:
  "setAttributeNode 1 0
     [AttrO ''class'' ''a'' None,
      ElementO \<lparr>localName = ''p'', attributes = [], childNodes = [],
        shadowRoot = None, eventListeners = []\<rparr>,
      ElementO \<lparr>localName = ''li'', attributes = [], childNodes = [],
        shadowRoot = None, eventListeners = []\<rparr>]
   = Inr [AttrO ''class'' ''a'' (Some 1),
      ElementO \<lparr>localName = ''p'', attributes = [(''class'', ''a'')], childNodes = [],
        shadowRoot = None, eventListeners = []\<rparr>,
      ElementO \<lparr>localName = ''li'', attributes = [], childNodes = [],
        shadowRoot = None, eventListeners = []\<rparr>]"
  "setAttributeNode 2 0
     [AttrO ''class'' ''a'' (Some 1),
      ElementO \<lparr>localName = ''p'', attributes = [(''class'', ''a'')], childNodes = [],
        shadowRoot = None, eventListeners = []\<rparr>,
      ElementO \<lparr>localName = ''li'', attributes = [], childNodes = [],
        shadowRoot = None, eventListeners = []\<rparr>]
   = Inl InUseAttributeError"
  by (simp_all add: setAttributeNode_def setAttribute_def updElement_def lookup_def)

lemma tag_attr_only:
  assumes "lookup h a = Some (AttrO n v ow)"
  shows "tag nm [Ref a] h =
     Inr (length h, h @ [ElementO \<lparr>localName = nm, attributes = [(n, v)], childNodes = [],
                      shadowRoot = None, eventListeners = []\<rparr>, AttrO n v (Some (length h))])"
proof -
  have lt: "a < length h" and at: "h ! a = AttrO n v ow"
    using assms by (auto simp: lookup_def split: if_splits)
  show ?thesis
    using lt at
    by (simp add: tag_unfold handleAttributeNode_def hasAttribute_def getAttribute_def
        cloneNode_def alloc_def setAttributeNode_def setAttribute_def updElement_def
        lookup_def nth_append list_update_append)
qed

lemma tag_keeps_attr:
  assumes "lookup h a = Some (AttrO n v ow)" "tag nm cs h = Inr (el, h')"
  shows "lookup h' a = Some (AttrO n v ow)"
proof -
  let ?h0 = "h @ [ElementO \<lparr>localName = nm, attributes = [], childNodes = [],
                      shadowRoot = None, eventListeners = []\<rparr>]"
  have lt: "a < length h" using assms(1) by (auto simp: lookup_def split: if_splits)
  from assms(2) have p: "process (length h) cs ?h0 = Inr h'"
    by (auto simp: tag_unfold split: sum.splits)
  have "lookup ?h0 a = Some (AttrO n v ow)"
    using assms(1) lt by (simp add: lookup_def nth_append)
  from extends_lookup [OF extends_process(1) [OF p] this]
  show ?thesis by auto
qed

text \<open>
  C8. An \<^verbatim>\<open>Attr\<close> passed as a child is not changed by the call: whatever the other
  children are, after \<^verbatim>\<open>tag\<close> it has the name, the value and the owner (none, for
  one that \<^verbatim>\<open>attr\<close> made) it had before, because what the element gets is a
  clone. So one \<^verbatim>\<open>Attr\<close> serves two constructions: both calls succeed, the two
  elements are different, each carries the attribute, and the \<^verbatim>\<open>Attr\<close> is still as
  it was.
\<close>

theorem attr_is_cloned:
  "lookup h a = Some (AttrO n v ow) \<longrightarrow>
     (\<forall>nm cs el h'. tag nm cs h = Inr (el, h') \<longrightarrow> lookup h' a = Some (AttrO n v ow))
     \<and> (\<exists>e1 h1 e2 h2. tag nm1 [Ref a] h = Inr (e1, h1) \<and> tag nm2 [Ref a] h1 = Inr (e2, h2)
           \<and> e1 \<noteq> e2 \<and> lookup h2 a = Some (AttrO n v ow)
           \<and> getAttribute e1 n h2 = Some v \<and> getAttribute e2 n h2 = Some v)"
proof (intro impI conjI)
  assume a: "lookup h a = Some (AttrO n v ow)"
  show "\<forall>nm cs el h'. tag nm cs h = Inr (el, h') \<longrightarrow> lookup h' a = Some (AttrO n v ow)"
    using tag_keeps_attr [OF a] by blast
  let ?h1 = "h @ [ElementO \<lparr>localName = nm1, attributes = [(n, v)], childNodes = [],
                      shadowRoot = None, eventListeners = []\<rparr>, AttrO n v (Some (length h))]"
  let ?h2 = "?h1 @ [ElementO \<lparr>localName = nm2, attributes = [(n, v)], childNodes = [],
                      shadowRoot = None, eventListeners = []\<rparr>, AttrO n v (Some (length ?h1))]"
  have lt: "a < length h" using a by (auto simp: lookup_def split: if_splits)
  have t1: "tag nm1 [Ref a] h = Inr (length h, ?h1)" by (rule tag_attr_only [OF a])
  have a1: "lookup ?h1 a = Some (AttrO n v ow)" using a lt by (simp add: lookup_def nth_append)
  have t2: "tag nm2 [Ref a] ?h1 = Inr (length ?h1, ?h2)" by (rule tag_attr_only [OF a1])
  have "lookup ?h2 a = Some (AttrO n v ow)" using a lt by (simp add: lookup_def nth_append)
  moreover have "getAttribute (length h) n ?h2 = Some v"
    by (simp add: getAttribute_def lookup_def nth_append)
  moreover have "getAttribute (length ?h1) n ?h2 = Some v"
    by (simp add: getAttribute_def lookup_def nth_append)
  moreover have "length h \<noteq> length ?h1" by simp
  ultimately show "\<exists>e1 h1 e2 h2. tag nm1 [Ref a] h = Inr (e1, h1) \<and> tag nm2 [Ref a] h1 = Inr (e2, h2)
           \<and> e1 \<noteq> e2 \<and> lookup h2 a = Some (AttrO n v ow)
           \<and> getAttribute e1 n h2 = Some v \<and> getAttribute e2 n h2 = Some v"
    using t1 t2 by blast
qed

theorem attr_is_cloned_witness:
  "attr ''class'' ''a'' [] = (0, [AttrO ''class'' ''a'' None])
   \<and> tag ''p'' [Ref 0, Other (Str ''x'')] [AttrO ''class'' ''a'' None] =
       Inr (1, [AttrO ''class'' ''a'' None,
                ElementO \<lparr>localName = ''p'', attributes = [(''class'', ''a'')], childNodes = [3],
                  shadowRoot = None, eventListeners = []\<rparr>,
                AttrO ''class'' ''a'' (Some 1), TextO ''x''])
   \<and> lookup [AttrO ''class'' ''a'' None,
                ElementO \<lparr>localName = ''p'', attributes = [(''class'', ''a'')], childNodes = [3],
                  shadowRoot = None, eventListeners = []\<rparr>,
                AttrO ''class'' ''a'' (Some 1), TextO ''x''] 0 = Some (AttrO ''class'' ''a'' None)"
proof -
  have a: "attr ''class'' ''a'' [] = (0, [AttrO ''class'' ''a'' None])"
    by (simp add: attr_def createAttribute_def alloc_def setValue_def lookup_def)
  have t: "tag ''p'' [Ref 0, Other (Str ''x'')] [AttrO ''class'' ''a'' None] =
       Inr (1, [AttrO ''class'' ''a'' None,
                ElementO \<lparr>localName = ''p'', attributes = [(''class'', ''a'')], childNodes = [3],
                  shadowRoot = None, eventListeners = []\<rparr>,
                AttrO ''class'' ''a'' (Some 1), TextO ''x''])"
    by (simp add: tag_unfold handleAttributeNode_def hasAttribute_def getAttribute_def
        cloneNode_def alloc_def setAttributeNode_def setAttribute_def updElement_def
        lookup_def appendText_def createTextNode_def appendChild_def)
  have l: "lookup [AttrO ''class'' ''a'' None] 0 = Some (AttrO ''class'' ''a'' None)"
    by (simp add: lookup_def)
  from attr_is_cloned [of "[AttrO ''class'' ''a'' None]" 0 "''class''" "''a''" None] l t
  have "lookup [AttrO ''class'' ''a'' None,
                ElementO \<lparr>localName = ''p'', attributes = [(''class'', ''a'')], childNodes = [3],
                  shadowRoot = None, eventListeners = []\<rparr>,
                AttrO ''class'' ''a'' (Some 1), TextO ''x''] 0 = Some (AttrO ''class'' ''a'' None)"
    by blast
  with a t show ?thesis by blast
qed

section \<open>Shadow roots\<close>

lemma keeps_lookup:
  "keeps h h' \<Longrightarrow> lookup h r = Some x \<Longrightarrow> \<exists>y. lookup h' r = Some y \<and> same x y"
  by (auto simp: keeps_nth lookup_def split: if_splits)

lemma keeps_element:
  "keeps h h' \<Longrightarrow> lookup h el = Some (ElementO e) \<Longrightarrow>
   \<exists>e'. lookup h' el = Some (ElementO e') \<and> shadowRoot e' = shadowRoot e \<and> localName e' = localName e"
proof -
  assume "keeps h h'" "lookup h el = Some (ElementO e)"
  from keeps_lookup [OF this] obtain y where "lookup h' el = Some y" "same (ElementO e) y" by blast
  then show ?thesis by (cases y) auto
qed

lemma extends_length: "extends h h' \<Longrightarrow> length h \<le> length h'"
  by (simp add: extends_nth)

lemma keeps_length: "keeps h h' \<Longrightarrow> length h \<le> length h'"
  by (simp add: keeps_nth)

lemma grown_content: "grown x y \<Longrightarrow> isContent x \<Longrightarrow> isContent y"
  by (cases x; cases y) auto

lemma extends_isNode:
  assumes "extends h h'" "isNode h r"
  shows "isNode h' r"
proof -
  from assms(2) obtain x where x: "lookup h r = Some x" "isContent x"
    by (auto simp: isNode_def split: option.splits)
  from extends_lookup [OF assms(1) x(1)] obtain y where "lookup h' r = Some y" "grown x y"
    by blast
  with x(2) show ?thesis by (simp add: isNode_def grown_content)
qed

lemma extends_root:
  "extends h h' \<Longrightarrow> lookup h r = Some (ShadowRootO m ss ns) \<Longrightarrow>
   \<exists>ss' ns'. lookup h' r = Some (ShadowRootO m ss' ns')"
proof -
  assume "extends h h'" "lookup h r = Some (ShadowRootO m ss ns)"
  from extends_lookup [OF this] obtain y where "lookup h' r = Some y" "grown (ShadowRootO m ss ns) y"
    by blast
  then show ?thesis by (cases y) auto
qed

lemma keeps_process:
  "process el cs h = Inr h' \<Longrightarrow> shadows cs = 0 \<Longrightarrow> keeps h h'"
  "processChild el c h = Inr h' \<Longrightarrow> shadowsChild c = 0 \<Longrightarrow> keeps h h'"
proof (induction el cs h and el c h arbitrary: h' and h' rule: process_processChild.induct)
  case (1 htmlTag h)
  then show ?case by (simp add: keeps_refl)
next
  case (2 htmlTag c cs h)
  then show ?case by (auto split: sum.splits intro: keeps_trans)
next
  case (3 htmlTag r h)
  then show ?case
    by (auto split: option.splits obj.splits
             intro: keeps_appendChild keeps_handleAttributeNode keeps_appendText)
next
  case (4 htmlTag l h)
  then show ?case by (auto intro: keeps_addEventListener)
next
  case (7 htmlTag b h)
  then show ?case by (auto intro: keeps_handleAttributeObject)
next
  case (10 htmlTag v h)
  then show ?case by (auto split: sum.splits intro: keeps_appendText)
qed (auto simp: keeps_refl)

lemma attachShadow_result:
  assumes "attachShadow el m h = Inr (r, h1)"
  shows "r = length h \<and> length h1 = Suc (length h)
         \<and> (\<exists>e. lookup h el = Some (ElementO e) \<and> shadowRoot e = None
                \<and> validShadowHostName (localName e)
                \<and> lookup h1 el = Some (ElementO (e\<lparr>shadowRoot := Some (length h)\<rparr>)))
         \<and> lookup h1 (length h) = Some (ShadowRootO m [] [])"
  using assms
  by (auto simp: attachShadow_def updElement_def lookup_def nth_append nth_list_update
           split: option.splits obj.splits if_splits)

lemma setAdoptedStyleSheets_result:
  assumes "lookup h r = Some (ShadowRootO m old ns)" "list_all constructed ss"
  shows "\<exists>h'. setAdoptedStyleSheets r ss h = Inr h' \<and> length h' = length h
           \<and> lookup h' r = Some (ShadowRootO m ss ns)"
  using assms by (auto simp: setAdoptedStyleSheets_def lookup_def split: if_splits)

lemma shadow_step:
  assumes "processChild el (ShadowC s) h = Inr h'"
  shows "\<exists>e e' ss ns. lookup h el = Some (ElementO e) \<and> shadowRoot e = None
           \<and> lookup h' el = Some (ElementO e') \<and> shadowRoot e' = Some (length h)
           \<and> lookup h' (length h) = Some (ShadowRootO Open ss ns) \<and> length h < length h'"
proof -
  from assms obtain r h1 h2 where a: "attachShadow el Open h = Inr (r, h1)"
    and a2: "setAdoptedStyleSheets r (sheets s) h1 = Inr h2"
    and b: "appendChildren r (children s) h2 = Inr h'"
    by (auto split: sum.splits)
  from attachShadow_result [OF a] obtain e where r: "r = length h" and len: "length h1 = Suc (length h)"
    and e: "lookup h el = Some (ElementO e)" "shadowRoot e = None"
    and e1: "lookup h1 el = Some (ElementO (e\<lparr>shadowRoot := Some (length h)\<rparr>))"
    and r1: "lookup h1 (length h) = Some (ShadowRootO Open [] [])"
    by blast
  have k: "keeps h1 h'"
    using keeps_trans [OF keeps_setAdoptedStyleSheets [OF a2] keeps_appendChildren [OF b]] .
  from keeps_element [OF k e1] obtain e' where e': "lookup h' el = Some (ElementO e')"
    "shadowRoot e' = Some (length h)" by auto
  from keeps_lookup [OF k r1] obtain y where y: "lookup h' (length h) = Some y"
    "same (ShadowRootO Open [] []) y" by blast
  then obtain ss ns where "y = ShadowRootO Open ss ns" by (cases y) auto
  with y e e' keeps_length [OF k] len show ?thesis by auto
qed

lemma process_roots:
  "process el cs h = Inr h' \<Longrightarrow> lookup h el = Some (ElementO e) \<Longrightarrow>
     \<exists>e'. lookup h' el = Some (ElementO e') \<and>
       (if shadows cs = 0 then shadowRoot e' = shadowRoot e
        else shadows cs = 1 \<and> shadowRoot e = None
             \<and> (\<exists>r ss ns. shadowRoot e' = Some r \<and> length h \<le> r
                    \<and> lookup h' r = Some (ShadowRootO Open ss ns)))"
  "processChild el c h = Inr h' \<Longrightarrow> lookup h el = Some (ElementO e) \<Longrightarrow>
     \<exists>e'. lookup h' el = Some (ElementO e') \<and>
       (if shadowsChild c = 0 then shadowRoot e' = shadowRoot e
        else shadowsChild c = 1 \<and> shadowRoot e = None
             \<and> (\<exists>r ss ns. shadowRoot e' = Some r \<and> length h \<le> r
                    \<and> lookup h' r = Some (ShadowRootO Open ss ns)))"
proof (induction el cs h and el c h arbitrary: h' e and h' e rule: process_processChild.induct)
  case (1 htmlTag h)
  then show ?case by simp
next
  case (2 htmlTag c cs h)
  from "2.prems" obtain h1 where c: "processChild htmlTag c h = Inr h1"
    and cs: "process htmlTag cs h1 = Inr h'"
    by (auto split: sum.splits)
  from "2.IH"(1) [OF c "2.prems"(2)] obtain e1 where e1: "lookup h1 htmlTag = Some (ElementO e1)"
    and p1: "if shadowsChild c = 0 then shadowRoot e1 = shadowRoot e
        else shadowsChild c = 1 \<and> shadowRoot e = None
             \<and> (\<exists>r ss ns. shadowRoot e1 = Some r \<and> length h \<le> r
                    \<and> lookup h1 r = Some (ShadowRootO Open ss ns))"
    by blast
  from "2.IH"(2) [OF c cs e1] obtain e' where e': "lookup h' htmlTag = Some (ElementO e')"
    and p2: "if shadows cs = 0 then shadowRoot e' = shadowRoot e1
        else shadows cs = 1 \<and> shadowRoot e1 = None
             \<and> (\<exists>r ss ns. shadowRoot e' = Some r \<and> length h1 \<le> r
                    \<and> lookup h' r = Some (ShadowRootO Open ss ns))"
    by blast
  have l1: "length h \<le> length h1" using extends_process(2) [OF c] by (rule extends_length)
  have x: "extends h1 h'" using extends_process(1) [OF cs] .
  show ?case
  proof (cases "shadowsChild c = 0")
    case True
    with p1 p2 l1 e' show ?thesis by (auto split: if_splits)
  next
    case False
    with p1 obtain r ss ns where r: "shadowsChild c = 1" "shadowRoot e = None" "shadowRoot e1 = Some r"
      "length h \<le> r" "lookup h1 r = Some (ShadowRootO Open ss ns)" by auto
    from extends_root [OF x r(5)] obtain ss' ns' where "lookup h' r = Some (ShadowRootO Open ss' ns')"
      by blast
    with r p2 e' show ?thesis by (auto split: if_splits)
  qed
next
  case (3 htmlTag r h)
  then have "keeps h h'" using keeps_process(2) [of htmlTag "Ref r" h h'] by simp
  from keeps_element [OF this "3.prems"(2)] show ?case by auto
next
  case (4 htmlTag l h)
  then have "keeps h h'" using keeps_process(2) [of htmlTag "Listener l" h h'] by simp
  from keeps_element [OF this "4.prems"(2)] show ?case by auto
next
  case (5 htmlTag s h)
  from shadow_step [OF "5.prems"(1)] "5.prems"(2) show ?case by auto
next
  case (6 htmlTag cs h)
  from "6.prems" have "process htmlTag cs h = Inr h'" by simp
  from "6.IH" [OF this "6.prems"(2)] show ?case by (simp only: shadows.simps shadowsChild.simps)
next
  case (7 htmlTag b h)
  then have "keeps h h'" using keeps_process(2) [of htmlTag "Bag b" h h'] by simp
  from keeps_element [OF this "7.prems"(2)] show ?case by auto
next
  case (8 htmlTag h)
  then show ?case by simp
next
  case (9 htmlTag h)
  then show ?case by simp
next
  case (10 htmlTag v h)
  then have "keeps h h'" using keeps_process(2) [of htmlTag "Other v" h h'] by simp
  from keeps_element [OF this "10.prems"(2)] show ?case by auto
qed

lemma tag_roots:
  assumes "tag nm cs h = Inr (el, h')"
  shows "shadows cs \<le> 1
    \<and> (case shadowRootOf el h' of
          None \<Rightarrow> shadows cs = 0
        | Some r \<Rightarrow> shadows cs = 1 \<and> length h < r \<and> (\<exists>ss ns. lookup h' r = Some (ShadowRootO Open ss ns)))"
proof -
  let ?e = "\<lparr>localName = nm, attributes = [], childNodes = [], shadowRoot = None, eventListeners = []\<rparr>"
  from assms have el: "el = length h" and p: "process (length h) cs (h @ [ElementO ?e]) = Inr h'"
    by (auto simp: tag_unfold split: sum.splits)
  have "lookup (h @ [ElementO ?e]) (length h) = Some (ElementO ?e)" by simp
  from process_roots(1) [OF p this] el show ?thesis
    by (auto simp: shadowRootOf_def split: if_splits)
qed

section \<open>Appending nodes\<close>

lemma appendChild_result:
  assumes c: "lookup h c = Some x" "isContent x"
    and p: "lookup h p = Some y" "addChild c (removeChild c y) = Inr y'"
  shows "appendChild p c h = Inr ((map (removeChild c) h)[p := y'])"
proof -
  have "p < length h" "h ! p = y" using p(1) by (auto simp: lookup_def split: if_splits)
  then have "lookup (map (removeChild c) h) p = Some (removeChild c y)"
    by (simp add: lookup_def)
  with c p(2) show ?thesis by (simp add: appendChild_def)
qed

lemma appendChild_root:
  assumes c: "isNode h c" and p: "lookup h p = Some (ShadowRootO m ss ns)"
  shows "\<exists>h'. appendChild p c h = Inr h' \<and> length h' = length h
           \<and> lookup h' p = Some (ShadowRootO m ss (removeAll c ns @ [c]))"
proof -
  from c obtain x where x: "lookup h c = Some x" "isContent x"
    by (auto simp: isNode_def split: option.splits)
  have lt: "p < length h" using p by (auto simp: lookup_def split: if_splits)
  have "appendChild p c h =
          Inr ((map (removeChild c) h)[p := ShadowRootO m ss (removeAll c ns @ [c])])"
    by (rule appendChild_result [OF x p]) simp
  then show ?thesis using lt by (simp add: lookup_def)
qed

lemma appendChild_element:
  assumes c: "isNode h c" and p: "lookup h p = Some (ElementO e)"
  shows "\<exists>h'. appendChild p c h = Inr h' \<and> length h' = length h
           \<and> lookup h' p = Some (ElementO (e\<lparr>childNodes := removeAll c (childNodes e) @ [c]\<rparr>))"
proof -
  from c obtain x where x: "lookup h c = Some x" "isContent x"
    by (auto simp: isNode_def split: option.splits)
  have lt: "p < length h" using p by (auto simp: lookup_def split: if_splits)
  have "appendChild p c h =
          Inr ((map (removeChild c) h)[p := ElementO (e\<lparr>childNodes := removeAll c (childNodes e) @ [c]\<rparr>)])"
    by (rule appendChild_result [OF x p]) simp
  then show ?thesis using lt by (simp add: lookup_def)
qed

lemma keeps_isNode: "keeps h h' \<Longrightarrow> isNode h r \<Longrightarrow> isNode h' r"
  by (blast intro: extends_isNode keeps_extends)

lemma moved_order:
  "filter (\<lambda>y. y \<notin> set xs) (removeAll x ns @ [x]) @ remdups xs
     = filter (\<lambda>y. y \<notin> set (x # xs)) ns @ remdups (x # xs)"
  by (induction ns) auto

lemma appendChildren_result:
  "lookup h root = Some (ShadowRootO m ss ns) \<Longrightarrow> list_all (isNode h) xs \<Longrightarrow>
   \<exists>h'. appendChildren root xs h = Inr h' \<and> length h' = length h
        \<and> lookup h' root = Some (ShadowRootO m ss (filter (\<lambda>y. y \<notin> set xs) ns @ remdups xs))"
proof (induction xs arbitrary: h ns)
  case Nil
  then show ?case by simp
next
  case (Cons x xs)
  from Cons.prems have x: "isNode h x" and xs: "list_all (isNode h) xs" by simp_all
  from appendChild_root [OF x Cons.prems(1)] obtain h1 where
    h1: "appendChild root x h = Inr h1" "length h1 = length h"
      "lookup h1 root = Some (ShadowRootO m ss (removeAll x ns @ [x]))"
    by blast
  have "keeps h h1" using keeps_appendChild [OF h1(1)] .
  with xs have "list_all (isNode h1) xs"
    by (auto simp: list_all_iff intro: keeps_isNode)
  from Cons.IH [OF h1(3) this] obtain h' where
    h': "appendChildren root xs h1 = Inr h'" "length h' = length h1"
      "lookup h' root = Some (ShadowRootO m ss
         (filter (\<lambda>y. y \<notin> set xs) (removeAll x ns @ [x]) @ remdups xs))"
    by blast
  from h'(3) have "lookup h' root = Some (ShadowRootO m ss
         (filter (\<lambda>y. y \<notin> set (x # xs)) ns @ remdups (x # xs)))"
    by (simp only: moved_order)
  with h1 h' show ?case by simp
qed

lemma shadow_step_result:
  assumes el: "lookup h el = Some (ElementO e)" "shadowRoot e = None"
      "validShadowHostName (localName e)"
    and ss: "list_all constructed (sheets s)"
    and ns: "list_all (isNode h) (children s)"
  shows "\<exists>h'. processChild el (ShadowC s) h = Inr h' \<and> length h' = Suc (length h)
           \<and> shadowRootOf el h' = Some (length h)
           \<and> lookup h' (length h) = Some (ShadowRootO Open (sheets s) (remdups (children s)))"
proof -
  let ?h1 = "updElement el (\<lambda>e. e\<lparr>shadowRoot := Some (length h)\<rparr>) (h @ [ShadowRootO Open [] []])"
  have a: "attachShadow el Open h = Inr (length h, ?h1)"
    using el by (simp add: attachShadow_def)
  have x1: "extends h ?h1" using extends_attachShadow [OF a] .
  from attachShadow_result [OF a] have r1: "lookup ?h1 (length h) = Some (ShadowRootO Open [] [])"
    and e1: "lookup ?h1 el = Some (ElementO (e\<lparr>shadowRoot := Some (length h)\<rparr>))"
    and l1: "length ?h1 = Suc (length h)"
    using el(1) by auto
  from setAdoptedStyleSheets_result [OF r1 ss] obtain h2 where
    a2: "setAdoptedStyleSheets (length h) (sheets s) ?h1 = Inr h2"
    and l2: "length h2 = length ?h1"
    and r2: "lookup h2 (length h) = Some (ShadowRootO Open (sheets s) [])"
    by blast
  have k2: "keeps ?h1 h2" using keeps_setAdoptedStyleSheets [OF a2] .
  have x2: "extends h h2" using extends_trans [OF x1 keeps_extends [OF k2]] .
  have n2: "list_all (isNode h2) (children s)"
    using ns x2 by (auto simp: list_all_iff intro: extends_isNode)
  from appendChildren_result [OF r2 n2] obtain h' where
    h': "appendChildren (length h) (children s) h2 = Inr h'" "length h' = length h2"
      "lookup h' (length h) = Some (ShadowRootO Open (sheets s) (remdups (children s)))"
    by auto
  have k: "keeps ?h1 h'"
    using keeps_trans [OF k2 keeps_appendChildren [OF h'(1)]] .
  from keeps_element [OF k e1(1)] have "shadowRootOf el h' = Some (length h)"
    by (auto simp: shadowRootOf_def)
  moreover have "processChild el (ShadowC s) h = Inr h'"
    using a a2 h'(1) by simp
  ultimately show ?thesis using h' l1 l2 by auto
qed

section \<open>Which children the builder accepts\<close>

lemma appendText_result:
  assumes el: "lookup h el = Some (ElementO e)"
  shows "\<exists>h'. appendText el s h = Inr h' \<and> length h' = Suc (length h)
           \<and> lookup h' (length h) = Some (TextO s)
           \<and> lookup h' el = Some (ElementO (e\<lparr>childNodes := removeAll (length h) (childNodes e) @ [length h]\<rparr>))"
proof -
  let ?h1 = "h @ [TextO s]"
  let ?e' = "ElementO (e\<lparr>childNodes := removeAll (length h) (childNodes e) @ [length h]\<rparr>)"
  have lt: "el < length h" using el by (auto simp: lookup_def split: if_splits)
  have c: "lookup ?h1 (length h) = Some (TextO s)" by simp
  have p: "lookup ?h1 el = Some (ElementO e)"
    using el lt by (auto simp: lookup_def nth_append split: if_splits)
  have "appendChild el (length h) ?h1 = Inr ((map (removeChild (length h)) ?h1)[el := ?e'])"
    by (rule appendChild_result [OF c _ p]) simp_all
  then have "appendText el s h = Inr ((map (removeChild (length h)) ?h1)[el := ?e'])"
    by (simp add: appendText_def createTextNode_def alloc_def)
  moreover have "lookup ((map (removeChild (length h)) ?h1)[el := ?e']) (length h) = Some (TextO s)"
    using lt by (simp add: lookup_def nth_append)
  moreover have "lookup ((map (removeChild (length h)) ?h1)[el := ?e']) el = Some ?e'"
    using lt by (simp add: lookup_def)
  ultimately show ?thesis by simp
qed

lemma toString_total: "\<not> isSym v \<Longrightarrow> \<exists>s. toString v = Inr s"
  by (cases v) simp_all

lemma process_succeeds:
  "accepted h0 cs \<Longrightarrow> extends h0 h \<Longrightarrow> lookup h el = Some (ElementO e) \<Longrightarrow>
     shadows cs = 0 \<or> (shadows cs = 1 \<and> shadowRoot e = None
                              \<and> validShadowHostName (localName e)) \<Longrightarrow>
     \<exists>h'. process el cs h = Inr h'"
  "acceptedChild h0 c \<Longrightarrow> extends h0 h \<Longrightarrow> lookup h el = Some (ElementO e) \<Longrightarrow>
     shadowsChild c = 0 \<or> (shadowsChild c = 1 \<and> shadowRoot e = None
                                   \<and> validShadowHostName (localName e)) \<Longrightarrow>
     \<exists>h'. processChild el c h = Inr h'"
proof (induction el cs h and el c h arbitrary: e and e rule: process_processChild.induct)
  case (1 htmlTag h)
  then show ?case by simp
next
  case (2 htmlTag c cs h)
  from "2.prems" have ac: "acceptedChild h0 c" and acs: "accepted h0 cs" by simp_all
  have sc: "shadowsChild c = 0 \<or> (shadowsChild c = 1 \<and> shadowRoot e = None
                                         \<and> validShadowHostName (localName e))"
    using "2.prems"(4) by auto
  from "2.IH"(1) [OF ac "2.prems"(2,3) sc] obtain h1 where h1: "processChild htmlTag c h = Inr h1"
    by blast
  from process_roots(2) [OF h1 "2.prems"(3)] obtain e1 where
    e1: "lookup h1 htmlTag = Some (ElementO e1)"
    and r1: "if shadowsChild c = 0 then shadowRoot e1 = shadowRoot e
        else shadowsChild c = 1 \<and> shadowRoot e = None
             \<and> (\<exists>r ss ns. shadowRoot e1 = Some r \<and> length h \<le> r
                    \<and> lookup h1 r = Some (ShadowRootO Open ss ns))"
    by blast
  have x1: "extends h0 h1"
    using extends_trans [OF "2.prems"(2) extends_process(2) [OF h1]] .
  have n1: "localName e1 = localName e"
    using extends_localName [OF extends_process(2) [OF h1] "2.prems"(3) e1] .
  have scs: "shadows cs = 0 \<or> (shadows cs = 1 \<and> shadowRoot e1 = None
                                    \<and> validShadowHostName (localName e1))"
    using "2.prems"(4) r1 n1 by (auto split: if_splits)
  from "2.IH"(2) [OF h1 acs x1 e1 scs] h1 show ?case by simp
next
  case (3 htmlTag r h)
  from "3.prems" have "r < length h" using extends_length by fastforce
  then obtain x where x: "lookup h r = Some x" by (simp add: lookup_def)
  show ?case
  proof (cases x)
    case (ElementO e0)
    with x have "isNode h r" by (simp add: isNode_def)
    from appendChild_element [OF this "3.prems"(3)] x ElementO show ?thesis by auto
  next
    case (TextO t)
    with x have "isNode h r" by (simp add: isNode_def)
    from appendChild_element [OF this "3.prems"(3)] x TextO show ?thesis by auto
  next
    case (AttrO n v ow)
    with node_entry [OF "3.prems"(3), of r n v ow] x show ?thesis by auto
  next
    case (ShadowRootO m ss ns)
    with appendText_result [OF "3.prems"(3), of "''[object ShadowRoot]''"] x show ?thesis by auto
  qed
next
  case (4 htmlTag l h)
  then show ?case by simp
next
  case (5 htmlTag s h)
  from "5.prems" have root: "shadowRoot e = None" "validShadowHostName (localName e)"
    and ns: "list_all (isNode h0) (children s)" and ss: "list_all constructed (sheets s)"
    by simp_all
  from ns "5.prems"(2) have "list_all (isNode h) (children s)"
    by (auto simp: list_all_iff intro: extends_isNode)
  from shadow_step_result [OF "5.prems"(3) root ss this] show ?case by blast
next
  case (6 htmlTag cs h)
  from "6.prems" have "accepted h0 cs"
    "shadows cs = 0 \<or> (shadows cs = 1 \<and> shadowRoot e = None \<and> validShadowHostName (localName e))"
    by simp_all
  from "6.IH" [OF this(1) "6.prems"(2,3) this(2)] show ?case by simp
next
  case (7 htmlTag b h)
  then show ?case by simp
next
  case (8 htmlTag h)
  then show ?case by simp
next
  case (9 htmlTag h)
  then show ?case by simp
next
  case (10 htmlTag v h)
  from "10.prems"(1) obtain s where "toString v = Inr s"
    using toString_total by auto
  with appendText_result [OF "10.prems"(3), of s] show ?case by auto
qed

lemma tag_succeeds:
  assumes "accepted h cs" "shadows cs = 0 \<or> (shadows cs = 1 \<and> validShadowHostName nm)"
  shows "\<exists>el h'. tag nm cs h = Inr (el, h')"
proof -
  let ?e = "\<lparr>localName = nm, attributes = [], childNodes = [], shadowRoot = None, eventListeners = []\<rparr>"
  have "extends h (h @ [ElementO ?e])" by (simp add: keeps_extends keeps_alloc)
  moreover have "lookup (h @ [ElementO ?e]) (length h) = Some (ElementO ?e)" by simp
  moreover have "shadows cs = 0 \<or> (shadows cs = 1 \<and> shadowRoot ?e = None
                                        \<and> validShadowHostName (localName ?e))"
    using assms(2) by auto
  ultimately obtain h' where "process (length h) cs (h @ [ElementO ?e]) = Inr h'"
    using process_succeeds(1) [OF assms(1)] by blast
  then show ?thesis by (simp add: tag_unfold)
qed

lemma process_strip:
  "process el (strip cs) h = process el cs h"
  "process el (stripChild c) h = processChild el c h"
proof (induction el cs h and el c h rule: process_processChild.induct)
  case (2 htmlTag c cs h)
  then show ?case by (simp add: process_append split: sum.splits)
qed (simp_all split: sum.splits)

lemma other_step:
  assumes "lookup h el = Some (ElementO e)" "\<forall>c\<in>set (childNodes e). c < length h" "toString v = Inr s"
  shows "\<exists>h'. processChild el (Other v) h = Inr h' \<and> lookup h' (length h) = Some (TextO s)
           \<and> childNodesOf el h' = Some (childNodes e @ [length h])"
proof -
  from assms(2) have "length h \<notin> set (childNodes e)" by auto
  then have "removeAll (length h) (childNodes e) = childNodes e" by simp
  with appendText_result [OF assms(1), of s] assms(3) show ?thesis
    by (auto simp: childNodesOf_def)
qed

text \<open>
  C2. As stated (no child value of any runtime type makes the builder raise) the claim
  does not hold: a symbol reaches the last branch and \<^verbatim>\<open>createTextNode\<close> throws
  TypeError on it. What holds: for children the builder has a rule for (\<open>accepted\<close>:
  the values of the declared type, \<^verbatim>\<open>null\<close>, \<^verbatim>\<open>undefined\<close> and the other values
  that convert to a string, the style sheets of a \<^verbatim>\<open>Shadow\<close> being constructed
  ones), a tag name and attribute names that the platform accepts and stores as they
  are written (\<open>storedName\<close>, \<open>named\<close>), and no \<^verbatim>\<open>Shadow\<close> among the children or
  one and a tag name that can host a shadow root, \<^verbatim>\<open>tag\<close> returns an element; a
  value of no recognised shape that converts to the string \<open>s\<close> becomes a new text
  node \<open>s\<close>, the last child of the element; \<^verbatim>\<open>null\<close> and \<^verbatim>\<open>undefined\<close>
  change nothing, wherever they stand: removing them at every depth gives the same
  result.
\<close>

theorem builder_total_on_alphabet:
  "(storedName nm \<and> named h cs \<and> accepted h cs
      \<and> (shadows cs = 0 \<or> (shadows cs = 1 \<and> validShadowHostName nm)) \<longrightarrow>
      (\<exists>el h'. tag nm cs h = Inr (el, h')))
   \<and> (lookup h el = Some (ElementO e) \<and> (\<forall>c\<in>set (childNodes e). c < length h)
        \<and> toString v = Inr s \<longrightarrow>
        (\<exists>h'. processChild el (Other v) h = Inr h' \<and> lookup h' (length h) = Some (TextO s)
           \<and> childNodesOf el h' = Some (childNodes e @ [length h])))
   \<and> processChild el Null h = Inr h \<and> processChild el Undefined h = Inr h
   \<and> process el (strip cs) h = process el cs h
   \<and> tag nm (strip cs) h = tag nm cs h"
  using tag_succeeds [of h cs nm] other_step [of h el e v s] process_strip(1) [of _ cs]
  by (simp add: tag_unfold)

theorem builder_total_on_alphabet_witness:
  "(\<exists>el h'. tag ''div'' [Null, Other (Str ''a''), Arr [Undefined, Other (Bool True)],
          Bag [(''id'', One ''i'')], Ref 0]
        [ElementO \<lparr>localName = ''p'', attributes = [], childNodes = [],
           shadowRoot = None, eventListeners = []\<rparr>] = Inr (el, h'))
   \<and> (\<exists>h'. processChild 0 (Other (Bool True))
        [ElementO \<lparr>localName = ''p'', attributes = [], childNodes = [],
           shadowRoot = None, eventListeners = []\<rparr>] = Inr h'
        \<and> lookup h' 1 = Some (TextO ''true'') \<and> childNodesOf 0 h' = Some [1])
   \<and> tag ''div'' [Other (Str ''a''), Arr [Other (Bool True)], Bag [(''id'', One ''i'')], Ref 0]
        [ElementO \<lparr>localName = ''p'', attributes = [], childNodes = [],
           shadowRoot = None, eventListeners = []\<rparr>]
     = tag ''div'' [Null, Other (Str ''a''), Arr [Undefined, Other (Bool True)],
          Bag [(''id'', One ''i'')], Ref 0]
        [ElementO \<lparr>localName = ''p'', attributes = [], childNodes = [],
           shadowRoot = None, eventListeners = []\<rparr>]"
  using builder_total_on_alphabet [of "''div''"
      "[ElementO \<lparr>localName = ''p'', attributes = [], childNodes = [],
           shadowRoot = None, eventListeners = []\<rparr>]"
      "[Null, Other (Str ''a''), Arr [Undefined, Other (Bool True)], Bag [(''id'', One ''i'')],
        Ref 0]" 0
      "\<lparr>localName = ''p'', attributes = [], childNodes = [],
           shadowRoot = None, eventListeners = []\<rparr>"
      "Bool True" "''true''"]
  by (simp add: lookup_def storedName_def lowerAlpha_def nameChar_def
      del: process.simps processChild.simps)

theorem symbol_child_counterexample:
  "tag ''div'' [Other (Sym ''id'')] [] = Inl TypeError"
  by (simp add: tag_unfold)

section \<open>More than one shadow root\<close>

lemma attachShadow_refused:
  "lookup h el = Some (ElementO e) \<Longrightarrow> shadowRoot e \<noteq> None \<or> \<not> validShadowHostName (localName e) \<Longrightarrow>
   attachShadow el m h = Inl NotSupportedError"
  by (auto simp: attachShadow_def)

lemma process_rejects:
  "accepted h0 cs \<Longrightarrow> extends h0 h \<Longrightarrow> lookup h el = Some (ElementO e) \<Longrightarrow>
     (if shadowRoot e = None \<and> validShadowHostName (localName e)
      then 2 \<le> shadows cs else 1 \<le> shadows cs) \<Longrightarrow>
     process el cs h = Inl NotSupportedError"
  "acceptedChild h0 c \<Longrightarrow> extends h0 h \<Longrightarrow> lookup h el = Some (ElementO e) \<Longrightarrow>
     (if shadowRoot e = None \<and> validShadowHostName (localName e)
      then 2 \<le> shadowsChild c else 1 \<le> shadowsChild c) \<Longrightarrow>
     processChild el c h = Inl NotSupportedError"
proof (induction el cs h and el c h arbitrary: e and e rule: process_processChild.induct)
  case (1 htmlTag h)
  then show ?case by (simp split: if_splits)
next
  case (2 htmlTag c cs h)
  from "2.prems" have ac: "acceptedChild h0 c" and acs: "accepted h0 cs" by simp_all
  let ?free = "shadowRoot e = None \<and> validShadowHostName (localName e)"
  have fails_here: "process htmlTag (c # cs) h = Inl NotSupportedError"
    if "if ?free then 2 \<le> shadowsChild c else 1 \<le> shadowsChild c"
    using "2.IH"(1) [OF ac "2.prems"(2,3) that] by simp
  have fails_later: "process htmlTag (c # cs) h = Inl NotSupportedError"
    if ok: "shadowsChild c = 0 \<or> (shadowsChild c = 1 \<and> ?free)"
      and rest: "if shadowsChild c = 0 then (if ?free then 2 \<le> shadows cs else 1 \<le> shadows cs)
                 else 1 \<le> shadows cs"
  proof -
    from process_succeeds(2) [OF ac "2.prems"(2,3)] ok obtain h1 where
      h1: "processChild htmlTag c h = Inr h1" by blast
    from process_roots(2) [OF h1 "2.prems"(3)] obtain e1 where
      e1: "lookup h1 htmlTag = Some (ElementO e1)"
      and r1: "if shadowsChild c = 0 then shadowRoot e1 = shadowRoot e
          else shadowsChild c = 1 \<and> shadowRoot e = None
               \<and> (\<exists>r ss ns. shadowRoot e1 = Some r \<and> length h \<le> r
                      \<and> lookup h1 r = Some (ShadowRootO Open ss ns))"
      by blast
    have n1: "localName e1 = localName e"
      using extends_localName [OF extends_process(2) [OF h1] "2.prems"(3) e1] .
    have x1: "extends h0 h1"
      using extends_trans [OF "2.prems"(2) extends_process(2) [OF h1]] .
    have "if shadowRoot e1 = None \<and> validShadowHostName (localName e1)
          then 2 \<le> shadows cs else 1 \<le> shadows cs"
      using rest r1 n1 by (auto split: if_splits)
    from "2.IH"(2) [OF h1 acs x1 e1 this] h1 show ?thesis by simp
  qed
  show ?case
  proof (cases "shadowsChild c = 0")
    case True
    with "2.prems"(4) show ?thesis by (intro fails_later) (auto split: if_splits)
  next
    case False
    show ?thesis
    proof (cases "if ?free then 2 \<le> shadowsChild c else 1 \<le> shadowsChild c")
      case True
      then show ?thesis by (rule fails_here)
    next
      case no: False
      with False have one: "shadowsChild c = 1" and free: "?free"
        by (auto split: if_splits)
      with "2.prems"(4) have "1 \<le> shadows cs" by (auto split: if_splits)
      with one free show ?thesis by (intro fails_later) auto
    qed
  qed
next
  case (5 htmlTag s h)
  then have "shadowRoot e \<noteq> None \<or> \<not> validShadowHostName (localName e)"
    by (auto split: if_splits)
  from attachShadow_refused [OF "5.prems"(3) this] show ?case by simp
next
  case (6 htmlTag cs h)
  from "6.prems" have "accepted h0 cs"
    "if shadowRoot e = None \<and> validShadowHostName (localName e)
      then 2 \<le> shadows cs else 1 \<le> shadows cs"
    by (auto split: if_splits)
  from "6.IH" [OF this(1) "6.prems"(2,3) this(2)] show ?case by simp
qed (simp_all split: if_splits)

lemma tag_rejects:
  assumes "accepted h cs" "2 \<le> shadows cs"
  shows "tag nm cs h = Inl NotSupportedError"
proof -
  let ?e = "\<lparr>localName = nm, attributes = [], childNodes = [], shadowRoot = None, eventListeners = []\<rparr>"
  have "extends h (h @ [ElementO ?e])" by (simp add: keeps_extends keeps_alloc)
  moreover have "lookup (h @ [ElementO ?e]) (length h) = Some (ElementO ?e)" by simp
  moreover have "if shadowRoot ?e = None \<and> validShadowHostName (localName ?e)
      then 2 \<le> shadows cs else 1 \<le> shadows cs"
    using assms(2) by auto
  ultimately have "process (length h) cs (h @ [ElementO ?e]) = Inl NotSupportedError"
    using process_rejects(1) [OF assms(1)] by blast
  then show ?thesis by (simp add: tag_unfold)
qed

text \<open>
  C4. As stated (a second \<^verbatim>\<open>Shadow\<close> replaces the root of the first and the call
  does not fail) the claim does not hold: the platform refuses the second
  \<^verbatim>\<open>attachShadow\<close>, and \<^verbatim>\<open>tag\<close> has no guard, so the call fails. What holds: an
  element that \<^verbatim>\<open>tag\<close> returns has no shadow root when its children hold no
  \<^verbatim>\<open>Shadow\<close> (at any depth) and exactly one, an open root created during the call,
  when they hold one; with two or more the call fails, and with NotSupportedError
  when the children are ones the builder has a rule for.
\<close>

theorem one_shadow_root:
  "(tag nm cs h = Inr (el, h') \<longrightarrow>
      shadows cs \<le> 1
      \<and> (case shadowRootOf el h' of
            None \<Rightarrow> shadows cs = 0
          | Some r \<Rightarrow> shadows cs = 1 \<and> length h < r
                     \<and> (\<exists>ss ns. lookup h' r = Some (ShadowRootO Open ss ns))))
   \<and> (2 \<le> shadows cs \<longrightarrow> (\<exists>e. tag nm cs h = Inl e))
   \<and> (accepted h cs \<and> 2 \<le> shadows cs \<longrightarrow> tag nm cs h = Inl NotSupportedError)"
proof -
  have "\<exists>e. tag nm cs h = Inl e" if "2 \<le> shadows cs"
  proof (cases "tag nm cs h")
    case (Inr p)
    then have "shadows cs \<le> 1" using tag_roots [of nm cs h "fst p" "snd p"] by simp
    with that show ?thesis by simp
  qed simp
  then show ?thesis using tag_roots [of nm cs h el h'] tag_rejects [of h cs nm] by blast
qed

theorem one_shadow_root_witness:
  "tag ''div'' [Arr [ShadowC (Shadow [] [1])], Other (Str ''x'')] [] =
     Inr (0, [ElementO \<lparr>localName = ''div'', attributes = [], childNodes = [2],
                shadowRoot = Some 1, eventListeners = []\<rparr>,
              ShadowRootO Open [1] [], TextO ''x''])
   \<and> shadows [Arr [ShadowC (Shadow [] [1])], Other (Str ''x'')] = 1
   \<and> shadowRootOf 0 [ElementO \<lparr>localName = ''div'', attributes = [], childNodes = [2],
                shadowRoot = Some 1, eventListeners = []\<rparr>,
              ShadowRootO Open [1] [], TextO ''x''] = Some 1
   \<and> tag ''span'' [ShadowC (Shadow [] []), Other (Str ''x''), Arr [ShadowC (Shadow [] [])]] []
       = Inl NotSupportedError"
proof -
  have n: "tag ''span'' [ShadowC (Shadow [] []), Other (Str ''x''), Arr [ShadowC (Shadow [] [])]] []
       = Inl NotSupportedError"
    using one_shadow_root [of "''span''"
        "[ShadowC (Shadow [] []), Other (Str ''x''), Arr [ShadowC (Shadow [] [])]]" "[]"]
    by (simp del: process.simps processChild.simps)
  have t: "tag ''div'' [Arr [ShadowC (Shadow [] [1])], Other (Str ''x'')] [] =
     Inr (0, [ElementO \<lparr>localName = ''div'', attributes = [], childNodes = [2],
                shadowRoot = Some 1, eventListeners = []\<rparr>,
              ShadowRootO Open [1] [], TextO ''x''])"
    by (simp add: tag_unfold attachShadow_def lookup_def updElement_def constructed_def
        setAdoptedStyleSheets_def appendText_def createTextNode_def alloc_def appendChild_def)
  have r: "shadowRootOf 0 [ElementO \<lparr>localName = ''div'', attributes = [], childNodes = [2],
                shadowRoot = Some 1, eventListeners = []\<rparr>,
              ShadowRootO Open [1] [], TextO ''x''] = Some 1"
    by (simp add: shadowRootOf_def lookup_def)
  from one_shadow_root [of "''div''" "[Arr [ShadowC (Shadow [] [1])], Other (Str ''x'')]" "[]" 0
      "[ElementO \<lparr>localName = ''div'', attributes = [], childNodes = [2],
                shadowRoot = Some 1, eventListeners = []\<rparr>,
              ShadowRootO Open [1] [], TextO ''x'']"] t r
  have "shadows [Arr [ShadowC (Shadow [] [1])], Other (Str ''x'')] = 1"
    by (simp del: shadows.simps shadowsChild.simps)
  with t r n show ?thesis by blast
qed

theorem two_shadows_counterexample:
  "tag ''div'' [ShadowC (Shadow [] [1]), ShadowC (Shadow [] [2])] [] = Inl NotSupportedError"
  by (simp add: tag_unfold attachShadow_def lookup_def updElement_def setAdoptedStyleSheets_def
      constructed_def)

section \<open>Attaching a shadow tree\<close>

lemma tag_extends:
  assumes "tag nm cs h = Inr (el, h')"
  shows "extends h h'"
proof -
  let ?e = "\<lparr>localName = nm, attributes = [], childNodes = [], shadowRoot = None, eventListeners = []\<rparr>"
  from assms have p: "process (length h) cs (h @ [ElementO ?e]) = Inr h'"
    by (auto simp: tag_unfold split: sum.splits)
  show ?thesis
    using extends_trans [OF keeps_extends [OF keeps_alloc] extends_process(1) [OF p]] .
qed

lemma tag_shadow_last:
  assumes t: "tag nm pre h = Inr (el, h1)" and z: "shadows pre = 0"
    and v: "validShadowHostName nm"
    and ss: "list_all constructed (sheets s)"
    and ns: "list_all (isNode h) (children s)"
  shows "\<exists>h2. tag nm (pre @ [ShadowC s]) h = Inr (el, h2) \<and> length h2 = Suc (length h1)
           \<and> shadowRootOf el h2 = Some (length h1)
           \<and> lookup h2 (length h1) = Some (ShadowRootO Open (sheets s) (remdups (children s)))"
proof -
  let ?e = "\<lparr>localName = nm, attributes = [], childNodes = [], shadowRoot = None, eventListeners = []\<rparr>"
  from t have el: "el = length h" and p: "process (length h) pre (h @ [ElementO ?e]) = Inr h1"
    by (auto simp: tag_unfold split: sum.splits)
  have e0: "lookup (h @ [ElementO ?e]) (length h) = Some (ElementO ?e)" by simp
  from process_roots(1) [OF p this] z obtain e1 where
    e1: "lookup h1 (length h) = Some (ElementO e1)" "shadowRoot e1 = None"
    by auto
  have v1: "validShadowHostName (localName e1)"
    using extends_localName [OF extends_process(1) [OF p] e0 e1(1)] v by simp
  have "list_all (isNode h1) (children s)"
    using ns tag_extends [OF t] by (auto simp: list_all_iff intro: extends_isNode)
  from shadow_step_result [OF e1 v1 ss this] obtain h2 where
    h2: "processChild (length h) (ShadowC s) h1 = Inr h2" "length h2 = Suc (length h1)"
      "shadowRootOf (length h) h2 = Some (length h1)"
      "lookup h2 (length h1) = Some (ShadowRootO Open (sheets s) (remdups (children s)))"
    by blast
  have "tag nm (pre @ [ShadowC s]) h = Inr (length h, h2)"
    using p h2(1) by (simp add: tag_unfold process_append del: processChild.simps)
  with h2 el show ?thesis by simp
qed

lemma tag_empty:
  "tag nm [] h = Inr (length h, h @ [ElementO \<lparr>localName = nm, attributes = [], childNodes = [],
      shadowRoot = None, eventListeners = []\<rparr>])"
  by (simp add: tag_unfold)

lemma tag_text:
  assumes "toString v = Inr s"
  shows "\<exists>h'. tag nm [Other v] h = Inr (length h, h') \<and> length h' = Suc (Suc (length h))
        \<and> lookup h' (Suc (length h)) = Some (TextO s)
        \<and> lookup h' (length h) = Some (ElementO \<lparr>localName = nm, attributes = [],
             childNodes = [Suc (length h)], shadowRoot = None, eventListeners = []\<rparr>)"
proof -
  let ?e = "\<lparr>localName = nm, attributes = [], childNodes = [], shadowRoot = None, eventListeners = []\<rparr>"
  have "lookup (h @ [ElementO ?e]) (length h) = Some (ElementO ?e)" by simp
  from appendText_result [OF this, of s] assms show ?thesis
    by (auto simp: tag_unfold)
qed

lemma extends_localNameOf:
  assumes "extends h h'" "localNameOf r h = Some n"
  shows "localNameOf r h' = Some n"
proof -
  from assms(2) obtain e where e: "lookup h r = Some (ElementO e)" "localName e = n"
    by (auto simp: localNameOf_def split: option.splits obj.splits)
  from extends_lookup [OF assms(1) e(1)] obtain y where "lookup h' r = Some y" "grown (ElementO e) y"
    by blast
  with e(2) show ?thesis by (cases y) (auto simp: localNameOf_def)
qed

lemma shadow_end_to_end:
  assumes c: "constructed sheet1"
  shows "\<exists>sp h1 sh h2 d h3 r.
      tag ''span'' [Other (Str ''s'')] h = Inr (sp, h1)
    \<and> shadow [SheetS sheet1, RefS sp] h1 = Inr (sh, h2)
    \<and> tag ''div'' [ShadowC sh] h2 = Inr (d, h3)
    \<and> localNameOf d h3 = Some ''div''
    \<and> shadowRootOf d h3 = Some r
    \<and> lookup h3 r = Some (ShadowRootO Open [sheet1] [sp])
    \<and> localNameOf sp h3 = Some ''span''
    \<and> length h3 = Suc (Suc (length h2))"
proof -
  from tag_text [of "Str ''s''" "''s''" "''span''" h] obtain h1 where
    t1: "tag ''span'' [Other (Str ''s'')] h = Inr (length h, h1)"
    and sp: "lookup h1 (length h) = Some (ElementO \<lparr>localName = ''span'', attributes = [],
             childNodes = [Suc (length h)], shadowRoot = None, eventListeners = []\<rparr>)"
    by auto
  have s: "shadow [SheetS sheet1, RefS (length h)] h1 = Inr (Shadow [length h] [sheet1], h1)"
    using sp by (simp add: shadow_def)
  have n: "list_all (isNode h1) (children (Shadow [length h] [sheet1]))"
    using sp by (simp add: isNode_def)
  have c': "list_all constructed (sheets (Shadow [length h] [sheet1]))"
    using c by simp
  from tag_shadow_last [OF tag_empty _ _ c' n, of "''div''"] obtain h3 where
    t3: "tag ''div'' [ShadowC (Shadow [length h] [sheet1])] h1 = Inr (length h1, h3)"
    and l3: "length h3 = Suc (length (h1 @ [ElementO \<lparr>localName = ''div'', attributes = [],
      childNodes = [], shadowRoot = None, eventListeners = []\<rparr>]))"
    and r3: "shadowRootOf (length h1) h3 = Some (Suc (length h1))"
      "lookup h3 (Suc (length h1)) = Some (ShadowRootO Open [sheet1] [length h])"
    by auto
  have "localNameOf (length h) h1 = Some ''span''" using sp by (simp add: localNameOf_def)
  from extends_localNameOf [OF tag_extends [OF t3] this]
  have "localNameOf (length h) h3 = Some ''span''" .
  moreover have "localNameOf (length h1) h3 = Some ''div''"
    using tag_localName [OF t3] by simp
  ultimately show ?thesis using t1 s t3 l3 r3 by auto
qed

lemma shortcuts_refused: "nm \<in> set unhostedShortcuts \<Longrightarrow> \<not> validShadowHostName nm"
  by (auto simp: unhostedShortcuts_def validShadowHostName_def validCustomElementName_def
      shadowHostNames_def)

lemma tag_shadow_refused:
  assumes "\<not> validShadowHostName nm"
  shows "tag nm [ShadowC s] h = Inl NotSupportedError"
  using assms by (simp add: tag_unfold attachShadow_def)

text \<open>
  C6. As stated (processing a \<^verbatim>\<open>Shadow\<close> creates a shadow root on the target, whatever
  the target) the claim does not hold: the platform lets only some elements host a
  shadow root, and \<^verbatim>\<open>tag('ul', shadow())\<close> fails with NotSupportedError, as do thirty
  of the forty-three shortcuts of the source. What holds: on an element that can host a
  shadow root and has none yet (the children before the \<^verbatim>\<open>Shadow\<close> are processed
  without error, bring attribute names that the platform stores as they are written,
  and hold no \<^verbatim>\<open>Shadow\<close>), with style sheets made by the \<^verbatim>\<open>CSSStyleSheet\<close>
  constructor and nodes that are elements and text nodes existing when \<^verbatim>\<open>tag\<close> is
  called, one object is created, an open shadow root; it is the shadow root of the element; its adopted
  style sheets are the descriptor's list and nothing else; its children are the
  descriptor's nodes in the order they were appended (a node listed twice is moved by
  the second \<^verbatim>\<open>appendChild\<close>, so it stands where it was listed last: \<open>remdups\<close>).
  End to end, for any document and constructed style sheet:
  \<^verbatim>\<open>tag('div', shadow(sheet1, tag('span', 's')))\<close> is a \<^verbatim>\<open>div\<close> with one shadow
  root, whose adopted style sheets are \<^verbatim>\<open>[sheet1]\<close> and whose one child is the
  \<^verbatim>\<open>span\<close>.
\<close>

theorem shadow_attached:
  "(tag nm pre h = Inr (el, h1) \<and> named h pre \<and> shadows pre = 0 \<and> validShadowHostName nm
      \<and> list_all constructed (sheets s) \<and> list_all (isNode h) (children s) \<longrightarrow>
      (\<exists>h2. tag nm (pre @ [ShadowC s]) h = Inr (el, h2) \<and> length h2 = Suc (length h1)
           \<and> shadowRootOf el h2 = Some (length h1)
           \<and> lookup h2 (length h1) = Some (ShadowRootO Open (sheets s) (remdups (children s)))))
   \<and> (constructed sheet1 \<longrightarrow>
       (\<exists>sp h1 sh h2 d h3 r.
          tag ''span'' [Other (Str ''s'')] h = Inr (sp, h1)
        \<and> shadow [SheetS sheet1, RefS sp] h1 = Inr (sh, h2)
        \<and> tag ''div'' [ShadowC sh] h2 = Inr (d, h3)
        \<and> localNameOf d h3 = Some ''div''
        \<and> shadowRootOf d h3 = Some r
        \<and> lookup h3 r = Some (ShadowRootO Open [sheet1] [sp])
        \<and> localNameOf sp h3 = Some ''span''
        \<and> length h3 = Suc (Suc (length h2))))
   \<and> (nm \<in> set unhostedShortcuts \<longrightarrow> tag nm [ShadowC s] h = Inl NotSupportedError)"
  using tag_shadow_last [of nm pre h el h1 s] shadow_end_to_end [of sheet1 h]
    tag_shadow_refused [OF shortcuts_refused, of nm s h]
  by blast

theorem shadow_attached_witness:
  "(\<exists>h2. tag ''section'' [Other (Str ''t''), ShadowC (Shadow [1, 0, 1] [5, 6])]
          [TextO ''a'', ElementO \<lparr>localName = ''b'', attributes = [], childNodes = [0],
             shadowRoot = None, eventListeners = []\<rparr>] = Inr (2, h2)
        \<and> length h2 = 5 \<and> shadowRootOf 2 h2 = Some 4
        \<and> lookup h2 4 = Some (ShadowRootO Open [5, 6] [0, 1]))
   \<and> (\<exists>sp h1 sh h2 d h3 r.
          tag ''span'' [Other (Str ''s'')] [] = Inr (sp, h1)
        \<and> shadow [SheetS 3, RefS sp] h1 = Inr (sh, h2)
        \<and> tag ''div'' [ShadowC sh] h2 = Inr (d, h3)
        \<and> localNameOf d h3 = Some ''div''
        \<and> shadowRootOf d h3 = Some r
        \<and> lookup h3 r = Some (ShadowRootO Open [3] [sp])
        \<and> localNameOf sp h3 = Some ''span''
        \<and> length h3 = Suc (Suc (length h2)))
   \<and> tag ''li'' [ShadowC (Shadow [] [3])] [] = Inl NotSupportedError"
proof -
  have w: "\<exists>sp h1 sh h2 d h3 r.
          tag ''span'' [Other (Str ''s'')] [] = Inr (sp, h1)
        \<and> shadow [SheetS 3, RefS sp] h1 = Inr (sh, h2)
        \<and> tag ''div'' [ShadowC sh] h2 = Inr (d, h3)
        \<and> localNameOf d h3 = Some ''div''
        \<and> shadowRootOf d h3 = Some r
        \<and> lookup h3 r = Some (ShadowRootO Open [3] [sp])
        \<and> localNameOf sp h3 = Some ''span''
        \<and> length h3 = Suc (Suc (length h2))"
    using shadow_attached [of _ _ "[]" _ _ _ 3] by (simp add: constructed_def)
  have u: "tag ''li'' [ShadowC (Shadow [] [3])] [] = Inl NotSupportedError"
    using shadow_attached [of "''li''" _ "[]" _ _ "Shadow [] [3]"]
    by (simp add: unhostedShortcuts_def del: process.simps processChild.simps)
  have t: "tag ''section'' [Other (Str ''t'')]
          [TextO ''a'', ElementO \<lparr>localName = ''b'', attributes = [], childNodes = [0],
             shadowRoot = None, eventListeners = []\<rparr>] =
        Inr (2, [TextO ''a'', ElementO \<lparr>localName = ''b'', attributes = [], childNodes = [0],
             shadowRoot = None, eventListeners = []\<rparr>,
             ElementO \<lparr>localName = ''section'', attributes = [], childNodes = [3],
             shadowRoot = None, eventListeners = []\<rparr>, TextO ''t''])"
    by (simp add: tag_unfold appendText_def createTextNode_def alloc_def appendChild_def lookup_def)
  have z: "shadows [Other (Str ''t'')] = 0" "named [TextO ''a'', ElementO \<lparr>localName = ''b'',
             attributes = [], childNodes = [0], shadowRoot = None, eventListeners = []\<rparr>]
           [Other (Str ''t'')]"
    by simp_all
  have c: "list_all constructed (sheets (Shadow [1, 0, 1] [5, 6]))"
    by (simp add: constructed_def)
  have n: "list_all (isNode [TextO ''a'', ElementO \<lparr>localName = ''b'', attributes = [],
             childNodes = [0], shadowRoot = None, eventListeners = []\<rparr>])
           (children (Shadow [1, 0, 1] [5, 6]))"
    by (simp add: isNode_def lookup_def)
  from shadow_attached [of "''section''" "[Other (Str ''t'')]"
      "[TextO ''a'', ElementO \<lparr>localName = ''b'', attributes = [], childNodes = [0],
             shadowRoot = None, eventListeners = []\<rparr>]" 2
      "[TextO ''a'', ElementO \<lparr>localName = ''b'', attributes = [], childNodes = [0],
             shadowRoot = None, eventListeners = []\<rparr>,
             ElementO \<lparr>localName = ''section'', attributes = [], childNodes = [3],
             shadowRoot = None, eventListeners = []\<rparr>, TextO ''t'']"
      "Shadow [1, 0, 1] [5, 6]"] t z c n validShadowHostName_simps(2)
  obtain h2 where "tag ''section'' ([Other (Str ''t'')] @ [ShadowC (Shadow [1, 0, 1] [5, 6])])
          [TextO ''a'', ElementO \<lparr>localName = ''b'', attributes = [], childNodes = [0],
             shadowRoot = None, eventListeners = []\<rparr>] = Inr (2, h2)"
    "length h2 = Suc (length [TextO ''a'', ElementO \<lparr>localName = ''b'', attributes = [],
             childNodes = [0], shadowRoot = None, eventListeners = []\<rparr>,
             ElementO \<lparr>localName = ''section'', attributes = [], childNodes = [3],
             shadowRoot = None, eventListeners = []\<rparr>, TextO ''t''])"
    "shadowRootOf 2 h2 = Some (length [TextO ''a'', ElementO \<lparr>localName = ''b'',
             attributes = [], childNodes = [0], shadowRoot = None, eventListeners = []\<rparr>,
             ElementO \<lparr>localName = ''section'', attributes = [], childNodes = [3],
             shadowRoot = None, eventListeners = []\<rparr>, TextO ''t''])"
    "lookup h2 (length [TextO ''a'', ElementO \<lparr>localName = ''b'',
             attributes = [], childNodes = [0], shadowRoot = None, eventListeners = []\<rparr>,
             ElementO \<lparr>localName = ''section'', attributes = [], childNodes = [3],
             shadowRoot = None, eventListeners = []\<rparr>, TextO ''t''])
       = Some (ShadowRootO Open (sheets (Shadow [1, 0, 1] [5, 6]))
                 (remdups (children (Shadow [1, 0, 1] [5, 6]))))"
    by blast
  then have "\<exists>h2. tag ''section'' [Other (Str ''t''), ShadowC (Shadow [1, 0, 1] [5, 6])]
          [TextO ''a'', ElementO \<lparr>localName = ''b'', attributes = [], childNodes = [0],
             shadowRoot = None, eventListeners = []\<rparr>] = Inr (2, h2)
        \<and> length h2 = 5 \<and> shadowRootOf 2 h2 = Some 4
        \<and> lookup h2 4 = Some (ShadowRootO Open [5, 6] [0, 1])"
    by (simp add: eval_nat_numeral del: process.simps processChild.simps)
  with w u show ?thesis by blast
qed

theorem shadow_on_ul_counterexample:
  "tag ''ul'' [ShadowC (Shadow [] [])] [] = Inl NotSupportedError"
  by (simp add: tag_unfold attachShadow_def lookup_def validShadowHostName_def
      validCustomElementName_def shadowHostNames_def)

section \<open>Attributes and text together\<close>

lemma attr_result: "attr key v h = (length h, h @ [AttrO key v None])"
  by (simp add: attr_def createAttribute_def alloc_def setValue_def)

lemma class_end_to_end:
  "\<exists>a h1 el h2 t.
      attr ''class'' ''a'' h = (a, h1)
    \<and> tag ''div'' [Ref a, Bag [(''class'', Many [''b'', ''c''])], Other (Str ''hi'')] h1 = Inr (el, h2)
    \<and> localNameOf el h2 = Some ''div''
    \<and> getAttribute el ''class'' h2 = Some ''a b c''
    \<and> childNodesOf el h2 = Some [t]
    \<and> lookup h2 t = Some (TextO ''hi'')"
proof -
  let ?h1 = "h @ [AttrO ''class'' ''a'' None]"
  let ?el = "Suc (length h)"
  let ?e0 = "\<lparr>localName = ''div'', attributes = [], childNodes = [], shadowRoot = None, eventListeners = []\<rparr>"
  let ?e1 = "\<lparr>localName = ''div'', attributes = [(''class'', ''a'')], childNodes = [], shadowRoot = None, eventListeners = []\<rparr>"
  let ?e2 = "\<lparr>localName = ''div'', attributes = [(''class'', ''a b c'')], childNodes = [], shadowRoot = None, eventListeners = []\<rparr>"
  let ?hA = "?h1 @ [ElementO ?e1, AttrO ''class'' ''a'' (Some ?el)]"
  let ?hB = "?h1 @ [ElementO ?e2, AttrO ''class'' ''a'' (Some ?el)]"
  have a: "lookup ?h1 (length h) = Some (AttrO ''class'' ''a'' None)" by simp
  have s1: "processChild ?el (Ref (length h)) (?h1 @ [ElementO ?e0]) = Inr ?hA"
    by (simp add: lookup_def nth_append handleAttributeNode_def hasAttribute_def getAttribute_def
        cloneNode_def alloc_def setAttributeNode_def setAttribute_def updElement_def
        list_update_append)
  have s2: "processChild ?el (Bag [(''class'', Many [''b'', ''c''])]) ?hA = Inr ?hB"
    by (simp add: lookup_def nth_append hasAttribute_def getAttribute_def
        setAttribute_def updElement_def list_update_append)
  have elB: "lookup ?hB ?el = Some (ElementO ?e2)"
    by (simp add: lookup_def nth_append)
  from appendText_result [OF elB, of "''hi''"] obtain h2 where
    s3: "appendText ?el ''hi'' ?hB = Inr h2"
    and t: "lookup h2 (length ?hB) = Some (TextO ''hi'')"
    and el2: "lookup h2 ?el = Some (ElementO (?e2\<lparr>childNodes := [length ?hB]\<rparr>))"
    by auto
  have s3': "processChild ?el (Other (Str ''hi'')) ?hB = Inr h2"
    using s3 by simp
  have "tag ''div'' [Ref (length h), Bag [(''class'', Many [''b'', ''c''])], Other (Str ''hi'')] ?h1
          = Inr (?el, h2)"
    using s1 s2 s3' by (simp add: tag_unfold del: processChild.simps)
  moreover have "localNameOf ?el h2 = Some ''div''" using el2 by (simp add: localNameOf_def)
  moreover have "getAttribute ?el ''class'' h2 = Some ''a b c''" using el2 by (simp add: getAttribute_def)
  moreover have "childNodesOf ?el h2 = Some [length ?hB]" using el2 by (simp add: childNodesOf_def)
  ultimately show ?thesis using t attr_result [of "''class''" "''a''" h] by blast
qed

lemma bag_many:
  assumes "lookup h el = Some (ElementO e)"
  shows "getAttribute el k (handleAttributeObject el [(k, Many xs)] h)
           = Some (specMerge (getAttribute el k h) (join '' '' xs))"
  using bag_entry [OF assms, of "[(k, Many xs)]" k "Many xs"] by simp

lemma scalar_child:
  assumes "toString v = Inr s"
  shows "\<exists>h'. tag nm [Other v] h = Inr (length h, h')
        \<and> childNodesOf (length h) h' = Some [Suc (length h)]
        \<and> lookup h' (Suc (length h)) = Some (TextO s)"
  using tag_text [OF assms, of nm h] by (auto simp: childNodesOf_def)

text \<open>
  C7. In any document, \<^verbatim>\<open>tag("div", attr("class", "a"), {class: ["b", "c"]}, "hi")\<close>
  returns a \<^verbatim>\<open>div\<close> whose \<^verbatim>\<open>class\<close> is \<^verbatim>\<open>a b c\<close> and whose only child is a
  text node \<^verbatim>\<open>hi\<close>. In general the strings of a sequence-valued bag entry are
  joined with single spaces and the result is merged as one value, and a child that is
  no node and converts to a string (a string above all) becomes a new text node with
  that string, appended to the element.
\<close>

theorem class_and_text:
  "(\<exists>a h1 el h2 t.
      attr ''class'' ''a'' h = (a, h1)
    \<and> tag ''div'' [Ref a, Bag [(''class'', Many [''b'', ''c''])], Other (Str ''hi'')] h1 = Inr (el, h2)
    \<and> localNameOf el h2 = Some ''div''
    \<and> getAttribute el ''class'' h2 = Some ''a b c''
    \<and> childNodesOf el h2 = Some [t]
    \<and> lookup h2 t = Some (TextO ''hi''))
   \<and> (lookup h el = Some (ElementO e) \<longrightarrow>
        getAttribute el k (handleAttributeObject el [(k, Many xs)] h)
           = Some (specMerge (getAttribute el k h) (join '' '' xs)))
   \<and> (toString v = Inr s \<longrightarrow>
        (\<exists>h'. tag nm [Other v] h = Inr (length h, h')
           \<and> childNodesOf (length h) h' = Some [Suc (length h)]
           \<and> lookup h' (Suc (length h)) = Some (TextO s)))"
  using class_end_to_end [of h] bag_many [of h el e k xs] scalar_child [of v s nm h]
  by blast

theorem class_and_text_witness:
  "attr ''class'' ''a'' [] = (0, [AttrO ''class'' ''a'' None])
   \<and> tag ''div'' [Ref 0, Bag [(''class'', Many [''b'', ''c''])], Other (Str ''hi'')]
        [AttrO ''class'' ''a'' None]
     = Inr (1, [AttrO ''class'' ''a'' None,
                ElementO \<lparr>localName = ''div'', attributes = [(''class'', ''a b c'')],
                  childNodes = [3], shadowRoot = None, eventListeners = []\<rparr>,
                AttrO ''class'' ''a'' (Some 1), TextO ''hi''])
   \<and> getAttribute 1 ''class''
        (handleAttributeObject 1 [(''class'', Many [''d'', ''e'', ''f''])]
          [AttrO ''class'' ''a'' None,
                ElementO \<lparr>localName = ''div'', attributes = [(''class'', ''a b c'')],
                  childNodes = [3], shadowRoot = None, eventListeners = []\<rparr>,
                AttrO ''class'' ''a'' (Some 1), TextO ''hi''])
     = Some ''a b c d e f''
   \<and> (\<exists>h'. tag ''p'' [Other (Bool False)] [] = Inr (0, h')
          \<and> childNodesOf 0 h' = Some [1] \<and> lookup h' 1 = Some (TextO ''false''))"
proof -
  have a: "attr ''class'' ''a'' [] = (0, [AttrO ''class'' ''a'' None])"
    by (simp add: attr_result)
  have b: "\<exists>h'. tag ''p'' [Other (Bool False)] [] = Inr (0, h')
          \<and> childNodesOf 0 h' = Some [1] \<and> lookup h' 1 = Some (TextO ''false'')"
    using class_and_text [of "[]" _ _ _ _ "Bool False" "''false''" "''p''"]
    by (simp del: process.simps processChild.simps)
  have t: "tag ''div'' [Ref 0, Bag [(''class'', Many [''b'', ''c''])], Other (Str ''hi'')]
        [AttrO ''class'' ''a'' None]
     = Inr (1, [AttrO ''class'' ''a'' None,
                ElementO \<lparr>localName = ''div'', attributes = [(''class'', ''a b c'')],
                  childNodes = [3], shadowRoot = None, eventListeners = []\<rparr>,
                AttrO ''class'' ''a'' (Some 1), TextO ''hi''])"
    by (simp add: tag_unfold handleAttributeNode_def hasAttribute_def getAttribute_def
        cloneNode_def alloc_def setAttributeNode_def setAttribute_def updElement_def
        lookup_def appendText_def createTextNode_def appendChild_def)
  from class_and_text [of "[AttrO ''class'' ''a'' None,
                ElementO \<lparr>localName = ''div'', attributes = [(''class'', ''a b c'')],
                  childNodes = [3], shadowRoot = None, eventListeners = []\<rparr>,
                AttrO ''class'' ''a'' (Some 1), TextO ''hi'']" 1
      "\<lparr>localName = ''div'', attributes = [(''class'', ''a b c'')],
                  childNodes = [3], shadowRoot = None, eventListeners = []\<rparr>"
      "''class''" "[''d'', ''e'', ''f'']"]
  have "getAttribute 1 ''class''
        (handleAttributeObject 1 [(''class'', Many [''d'', ''e'', ''f''])]
          [AttrO ''class'' ''a'' None,
                ElementO \<lparr>localName = ''div'', attributes = [(''class'', ''a b c'')],
                  childNodes = [3], shadowRoot = None, eventListeners = []\<rparr>,
                AttrO ''class'' ''a'' (Some 1), TextO ''hi''])
     = Some ''a b c d e f''"
    by (simp add: lookup_def getAttribute_def del: handleAttributeObject.simps)
  with a t b show ?thesis by blast
qed

section \<open>The shortcuts\<close>

text \<open>
  C10. The shortcut \<^verbatim>\<open>h5\<close> is \<^verbatim>\<open>shortTag('h6')\<close>: for every list of children it
  returns what \<^verbatim>\<open>tag('h6', ...children)\<close> returns, which is what \<^verbatim>\<open>h6\<close>
  returns, and the element it returns is named \<^verbatim>\<open>h6\<close>.
\<close>

theorem h5_builds_h6:
  "h5 cs h = tag ''h6'' cs h \<and> h5 cs h = h6 cs h
   \<and> (\<forall>el h'. h5 cs h = Inr (el, h') \<longrightarrow> localNameOf el h' = Some ''h6'')"
  using tag_localName [of "''h6''" cs h]
  by (auto simp: h5_def h6_def shortTag_def)

theorem h5_builds_h6_witness:
  "h5 [Other (Str ''Title'')] [] =
     Inr (0, [ElementO \<lparr>localName = ''h6'', attributes = [], childNodes = [1],
                shadowRoot = None, eventListeners = []\<rparr>, TextO ''Title''])
   \<and> localNameOf 0 [ElementO \<lparr>localName = ''h6'', attributes = [], childNodes = [1],
                shadowRoot = None, eventListeners = []\<rparr>, TextO ''Title''] = Some ''h6''"
proof -
  have a: "h5 [Other (Str ''Title'')] [] =
     Inr (0, [ElementO \<lparr>localName = ''h6'', attributes = [], childNodes = [1],
                shadowRoot = None, eventListeners = []\<rparr>, TextO ''Title''])"
    by (simp add: h5_def shortTag_def tag_def createElement_def alloc_def appendText_def
        createTextNode_def appendChild_def lookup_def)
  with h5_builds_h6 [of "[Other (Str ''Title'')]" "[]"] show ?thesis by simp
qed

section \<open>Event containers\<close>

lemma split_nosep: "sep \<notin> set w \<Longrightarrow> split sep (w @ sep # rest) = w # split sep rest"
  by (induction w) (auto split: list.splits)

lemma split_word: "sep \<notin> set w \<Longrightarrow> split sep w = [w]"
  by (induction w) (auto split: list.splits)

lemma split_join:
  "ws \<noteq> [] \<Longrightarrow> \<forall>w\<in>set ws. sep \<notin> set w \<Longrightarrow> split sep (join [sep] ws) = ws"
  by (induction "[sep]" ws rule: join.induct) (simp_all add: split_word split_nosep)

text \<open>
  C5. For event types \<open>ws\<close> (at least one, none containing a space) written with one
  space between them, \<^verbatim>\<open>on\<close> returns one container for each type, in the order of
  the string, each with the handler and the options of the call; so
  \<^verbatim>\<open>on("click touchstart", h, o)\<close> is the two containers for \<^verbatim>\<open>click\<close> and
  \<^verbatim>\<open>touchstart\<close>, in that order.
\<close>

theorem on_one_per_type:
  "(ws \<noteq> [] \<and> (\<forall>w\<in>set ws. CHR '' '' \<notin> set w) \<longrightarrow>
      on (join '' '' ws) cb opts = map (\<lambda>w. EventListener w cb opts) ws)
   \<and> on ''click touchstart'' cb opts =
       [EventListener ''click'' cb opts, EventListener ''touchstart'' cb opts]"
proof -
  have "on ''click touchstart'' cb opts =
       [EventListener ''click'' cb opts, EventListener ''touchstart'' cb opts]"
    by (simp add: on_def)
  moreover have "on (join '' '' ws) cb opts = map (\<lambda>w. EventListener w cb opts) ws"
    if "ws \<noteq> []" "\<forall>w\<in>set ws. CHR '' '' \<notin> set w"
    using split_join [OF that] by (simp add: on_def)
  ultimately show ?thesis by blast
qed

theorem on_one_per_type_witness:
  "on ''keydown keyup input'' 7 None =
     [EventListener ''keydown'' 7 None, EventListener ''keyup'' 7 None,
      EventListener ''input'' 7 None]"
  using on_one_per_type [of "[''keydown'', ''keyup'', ''input'']" 7 None] by simp

end
